theory Spec2Isabelle
  imports Main "HOL-Library.Word" "HOL-Library.Multiset"
begin

unbundle bit_operations_syntax

section \<open>Errors\<close>

text \<open>
  Every exception the modelled part of \<^verbatim>\<open>forge/service.py\<close> can raise is a value.
  \<open>TaskError\<close> carries its message, \<open>IOError\<close> its errno, \<open>KeyError\<close> the missing
  dictionary key; \<open>OtherError\<close> stands for any exception of a collaborator that the
  module does not catch.
\<close>

datatype error =
    TaskError string
  | IOError nat
  | KeyError string
  | IndexError
  | OtherError string

definition ENOENT :: nat where
  "ENOENT = 2"

section \<open>SHA-1 (the digest behind \<^verbatim>\<open>hashlib.sha1\<close>)\<close>

text \<open>
  \<^verbatim>\<open>hashlib.sha1\<close> is the standard library's SHA-1. It is written here after FIPS 180-4,
  with the sixteen-word circular message schedule of section 6.1.3. A 32-bit word is a
  \<open>nat\<close> below \<open>2 ^ 32\<close> and every addition and rotation wraps explicitly.
\<close>

definition add32 :: "nat \<Rightarrow> nat \<Rightarrow> nat" where
  "add32 x y = (x + y) mod 4294967296"

definition rotl1 :: "nat \<Rightarrow> nat" where
  "rotl1 w = (w * 2) mod 4294967296 + w div 2147483648"

definition rotl5 :: "nat \<Rightarrow> nat" where
  "rotl5 w = (w * 32) mod 4294967296 + w div 134217728"

definition rotl30 :: "nat \<Rightarrow> nat" where
  "rotl30 w = (w * 1073741824) mod 4294967296 + w div 4"

definition sha1_f :: "nat \<Rightarrow> nat \<Rightarrow> nat \<Rightarrow> nat \<Rightarrow> nat" where
  "sha1_f t b c d =
     (if t < 20 then (b AND c) OR ((4294967295 - b) AND d)
      else if t < 40 then b XOR c XOR d
      else if t < 60 then (b AND c) OR (b AND d) OR (c AND d)
      else b XOR c XOR d)"

definition sha1_k :: "nat \<Rightarrow> nat" where
  "sha1_k t =
     (if t < 20 then 0x5A827999
      else if t < 40 then 0x6ED9EBA1
      else if t < 60 then 0x8F1BBCDC
      else 0xCA62C1D6)"

definition next_word :: "nat list \<Rightarrow> nat" where
  "next_word w = rotl1 (w ! 13 XOR w ! 8 XOR w ! 2 XOR w ! 0)"

type_synonym sha1_state = "nat \<times> nat \<times> nat \<times> nat \<times> nat"

fun sha1_round :: "sha1_state \<Rightarrow> nat \<times> nat \<Rightarrow> sha1_state" where
  "sha1_round (a, b, c, d, e) (t, w) =
     (add32 (add32 (add32 (add32 (rotl5 a) (sha1_f t b c d)) e) (sha1_k t)) w,
      a, rotl30 b, c, d)"

fun add_state :: "sha1_state \<Rightarrow> sha1_state \<Rightarrow> sha1_state" where
  "add_state (h0, h1, h2, h3, h4) (a, b, c, d, e) =
     (add32 h0 a, add32 h1 b, add32 h2 c, add32 h3 d, add32 h4 e)"

fun sha1_step :: "sha1_state \<times> nat list \<Rightarrow> nat \<Rightarrow> sha1_state \<times> nat list" where
  "sha1_step (s, w) t = (sha1_round s (t, hd w), tl w @ [next_word w])"

definition be_word :: "nat list \<Rightarrow> nat" where
  "be_word bs = foldl (\<lambda>acc b. acc * 256 + b) 0 bs"

fun chunks :: "nat \<Rightarrow> nat \<Rightarrow> 'a list \<Rightarrow> 'a list list" where
  "chunks 0 k xs = []"
| "chunks (Suc n) k xs = take k xs # chunks n k (drop k xs)"

fun be_bytes :: "nat \<Rightarrow> nat \<Rightarrow> nat list" where
  "be_bytes 0 v = []"
| "be_bytes (Suc n) v = be_bytes n (v div 256) @ [v mod 256]"

definition sha1_pad :: "nat list \<Rightarrow> nat list" where
  "sha1_pad m =
     m @ [128] @ replicate ((119 - length m mod 64) mod 64) 0 @ be_bytes 8 (8 * length m)"

definition sha1_block :: "sha1_state \<Rightarrow> nat list \<Rightarrow> sha1_state" where
  "sha1_block h blk =
     add_state h (fst (foldl sha1_step (h, map be_word (chunks 16 4 blk)) [0..<80]))"

definition sha1_init :: sha1_state where
  "sha1_init = (0x67452301, 0xEFCDAB89, 0x98BADCFE, 0x10325476, 0xC3D2E1F0)"

definition sha1_blocks :: "nat list \<Rightarrow> sha1_state" where
  "sha1_blocks p = foldl sha1_block sha1_init (chunks (length p div 64) 64 p)"

definition sha1 :: "nat list \<Rightarrow> sha1_state" where
  "sha1 m = sha1_blocks (sha1_pad m)"

definition hex_digit :: "nat \<Rightarrow> char" where
  "hex_digit n = ''0123456789abcdef'' ! n"

definition hex_word :: "nat \<Rightarrow> string" where
  "hex_word w =
     [hex_digit (w div 268435456 mod 16), hex_digit (w div 16777216 mod 16),
      hex_digit (w div 1048576 mod 16), hex_digit (w div 65536 mod 16),
      hex_digit (w div 4096 mod 16), hex_digit (w div 256 mod 16),
      hex_digit (w div 16 mod 16), hex_digit (w mod 16)]"

fun hexdigest :: "sha1_state \<Rightarrow> string" where
  "hexdigest (a, b, c, d, e) = concat (map hex_word [a, b, c, d, e])"

definition sha1_hex :: "string \<Rightarrow> string" where
  "sha1_hex s = hexdigest (sha1 (map of_char s))"

section \<open>Files on disk and content hashing\<close>

text \<open>
  \<^verbatim>\<open>open(path)\<close> followed by \<^verbatim>\<open>fd.read()\<close> either yields the file's bytes or raises
  \<^verbatim>\<open>IOError\<close> with an errno. A disk is the function from path names to that outcome.
  Python 2 strings are byte strings, and so is \<open>string\<close>.
\<close>

datatype read_result = Content string | ReadError nat

type_synonym disk = "string \<Rightarrow> read_result"

text \<open>\<^verbatim>\<open>os.path.join(a, b)\<close> of \<^verbatim>\<open>posixpath\<close>, for two arguments.\<close>

definition path_join :: "string \<Rightarrow> string \<Rightarrow> string" where
  "path_join a b =
     (if b \<noteq> [] \<and> hd b = CHR ''/'' then b
      else if a = [] \<or> last a = CHR ''/'' then a @ b
      else a @ ''/'' @ b)"

definition NUL :: char where
  "NUL = CHR 0x00"

definition digit_char :: "nat \<Rightarrow> char" where
  "digit_char d = ''0123456789'' ! d"

text \<open>\<^verbatim>\<open>"%s" % n\<close> for a non-negative integer: its decimal numeral.\<close>

fun str_nat :: "nat \<Rightarrow> string" where
  "str_nat n = (if n < 10 then [digit_char n] else str_nat (n div 10) @ [digit_char (n mod 10)])"

declare str_nat.simps [simp del]


text \<open>
  The loop of \<^verbatim>\<open>shafiles\<close>. The hash object is represented by the bytes passed to
  \<^verbatim>\<open>update\<close> so far. The header of a file is hashed before the file is opened; an
  \<^verbatim>\<open>IOError\<close> other than \<open>ENOENT\<close> is raised again.
\<close>

fun shafiles_loop :: "disk \<Rightarrow> string \<Rightarrow> string list \<Rightarrow> string \<Rightarrow> error + string" where
  "shafiles_loop rd root [] acc = Inr acc"
| "shafiles_loop rd root (name # files) acc =
     (case rd (path_join root name) of
        Content c \<Rightarrow> shafiles_loop rd root files (acc @ ''file '' @ name @ [NUL] @ c)
      | ReadError e \<Rightarrow>
          if e \<noteq> ENOENT then Inl (IOError e)
          else shafiles_loop rd root files (acc @ ''file '' @ name @ [NUL]))"

definition shafiles_data :: "disk \<Rightarrow> string \<Rightarrow> string list \<Rightarrow> error + string" where
  "shafiles_data rd root files =
     shafiles_loop rd root files (''files '' @ str_nat (length files) @ [NUL])"

definition shafiles :: "disk \<Rightarrow> string \<Rightarrow> string list \<Rightarrow> error + string" where
  "shafiles rd root files =
     (case shafiles_data rd root files of
        Inl e \<Rightarrow> Inl e
      | Inr d \<Rightarrow> Inr (sha1_hex d))"

text \<open>What one listed file contributes to the hashed bytes when hashing completes.\<close>

fun file_bytes :: "read_result \<Rightarrow> string" where
  "file_bytes (Content c) = c"
| "file_bytes (ReadError e) = []"

definition file_record :: "disk \<Rightarrow> string \<Rightarrow> string \<Rightarrow> string" where
  "file_record rd root name = ''file '' @ name @ [NUL] @ file_bytes (rd (path_join root name))"

text \<open>
  The byte sequence hashed when no read fails for a reason other than \<open>ENOENT\<close>: the
  count of listed files, then one record per listed file, in list order.
\<close>

definition hashed_bytes :: "disk \<Rightarrow> string \<Rightarrow> string list \<Rightarrow> string" where
  "hashed_bytes rd root files =
     ''files '' @ str_nat (length files) @ [NUL] @ concat (map (file_record rd root) files)"


definition only_missing :: "disk \<Rightarrow> string \<Rightarrow> string list \<Rightarrow> bool" where
  "only_missing rd root files \<longleftrightarrow>
     (\<forall>n \<in> set files. \<forall>e. rd (path_join root n) = ReadError e \<longrightarrow> e = ENOENT)"

text \<open>
  An example disk for a service rooted at \<^verbatim>\<open>/svc\<close>: two readable files, one path that no
  longer exists, one that cannot be read (\<open>EACCES\<close>, errno 13). Every other path is missing.
\<close>

definition example_disk :: disk where
  "example_disk p =
     (if p = ''/svc/a'' then Content ''x''
      else if p = ''/svc/b'' then Content ''y''
      else if p = ''/svc/locked'' then ReadError 13
      else ReadError ENOENT)"

section \<open>Versions\<close>

text \<open>\<^verbatim>\<open>os.path.dirname\<close> of \<^verbatim>\<open>posixpath\<close>: everything up to the last slash, with trailing
  slashes removed unless the head consists of slashes only.\<close>

definition dirname :: "string \<Rightarrow> string" where
  "dirname p =
     (let head = rev (dropWhile (\<lambda>c. c \<noteq> CHR ''/'') (rev p))
      in if head \<noteq> [] \<and> filter (\<lambda>c. c \<noteq> CHR ''/'') head \<noteq> []
         then rev (dropWhile (\<lambda>c. c = CHR ''/'') (rev head))
         else head)"

lemma length_dirname: "length (dirname p) \<le> length p"
proof -
  have a: "length (dropWhile P xs) \<le> length xs" for P and xs :: string
    by (induction xs) auto
  have "length (rev (dropWhile (\<lambda>c. c \<noteq> CHR ''/'') (rev p))) \<le> length p"
    using a [of "\<lambda>c. c \<noteq> CHR ''/''" "rev p"] by simp
  moreover have "length (rev (dropWhile (\<lambda>c. c = CHR ''/'') (rev (rev (dropWhile (\<lambda>c. c \<noteq> CHR ''/'') (rev p))))))
      \<le> length (rev (dropWhile (\<lambda>c. c \<noteq> CHR ''/'') (rev p)))"
    using a [of "\<lambda>c. c = CHR ''/''" "rev (rev (dropWhile (\<lambda>c. c \<noteq> CHR ''/'') (rev p)))"]
    by (simp del: rev_rev_ident)
  ultimately show ?thesis
    by (simp add: dirname_def Let_def del: rev_rev_ident)
qed

text \<open>
  \<^verbatim>\<open>is_git\<close> climbs with \<^verbatim>\<open>dirname\<close> until a \<^verbatim>\<open>.git\<close> entry exists or the path is \<^verbatim>\<open>''\<close> or
  \<^verbatim>\<open>'/'\<close>. On a path such as \<^verbatim>\<open>//\<close>, whose \<^verbatim>\<open>dirname\<close> is the path itself, the recursion of
  the source never ends and the interpreter raises \<^verbatim>\<open>RuntimeError\<close>.
\<close>

function is_git :: "(string \<Rightarrow> bool) \<Rightarrow> string \<Rightarrow> error + bool" where
  "is_git ex path =
     (if ex (path_join path ''.git'') then Inr True
      else if path \<noteq> '''' \<and> path \<noteq> ''/'' then
        (if length (dirname path) < length path then is_git ex (dirname path)
         else Inl (OtherError ''RuntimeError: maximum recursion depth exceeded''))
      else Inr False)"
  by pat_completeness auto
termination
  by (relation "measure (\<lambda>(ex, path). length path)") auto

declare is_git.simps [simp del]

text \<open>
  Modelled from the spec: \<^verbatim>\<open>tasks.sh\<close> is not part of the sources. It runs a command in a
  directory and returns its exit code and output, or raises; \<open>shell\<close> is that function of
  the command line, the directory and the \<^verbatim>\<open>expected\<close> exit codes, if given.
\<close>

record sh_result =
  code :: int
  sh_output :: string

type_synonym shell = "string list \<Rightarrow> string \<Rightarrow> int list option \<Rightarrow> error + sh_result"

text \<open>\<^verbatim>\<open>str.strip()\<close>, and \<^verbatim>\<open>s.split()[0]\<close>, which raises \<^verbatim>\<open>IndexError\<close> when \<open>s\<close> has no field.\<close>

definition is_space :: "char \<Rightarrow> bool" where
  "is_space c \<longleftrightarrow> c \<in> set [CHR '' '', CHR 0x09, CHR 0x0A, CHR 0x0B, CHR 0x0C, CHR 0x0D]"

definition strip :: "string \<Rightarrow> string" where
  "strip s = rev (dropWhile is_space (rev (dropWhile is_space s)))"

definition first_field :: "string \<Rightarrow> error + string" where
  "first_field s =
     (case dropWhile is_space s of
        [] \<Rightarrow> Inl IndexError
      | c # cs \<Rightarrow> Inr (takeWhile (\<lambda>c. \<not> is_space c) (c # cs)))"

definition git_diff_args :: "string list" where
  "git_diff_args = [''git'', ''diff'', ''--quiet'', ''HEAD'', ''.'']"

definition git_log_args :: "string list" where
  "git_log_args = [''git'', ''log'', ''--no-color'', ''-n1'', ''--format=oneline'', ''--'', ''.'']"

definition get_version :: "(string \<Rightarrow> bool) \<Rightarrow> shell \<Rightarrow> string \<Rightarrow> string \<Rightarrow> error + string" where
  "get_version ex sh path dirty =
     (case is_git ex path of
        Inl e \<Rightarrow> Inl e
      | Inr False \<Rightarrow> Inr dirty
      | Inr True \<Rightarrow>
          (case sh git_diff_args path (Some [0, 1]) of
             Inl e \<Rightarrow> Inl e
           | Inr result \<Rightarrow>
               if code result = 0 then
                 (case sh git_log_args path None of
                    Inl e \<Rightarrow> Inl e
                  | Inr logged \<Rightarrow>
                      if strip (sh_output logged) \<noteq> [] then
                        (case first_field (strip (sh_output logged)) of
                           Inl e \<Rightarrow> Inl e
                         | Inr version \<Rightarrow> Inr (version @ ''.git''))
                      else Inr dirty)
               else Inr dirty))"

section \<open>Paths\<close>

definition basename :: "string \<Rightarrow> string" where
  "basename p = rev (takeWhile (\<lambda>c. c \<noteq> CHR ''/'') (rev p))"

definition isabs :: "string \<Rightarrow> bool" where
  "isabs p \<longleftrightarrow> p \<noteq> [] \<and> hd p = CHR ''/''"

text \<open>\<^verbatim>\<open>s.split('/')\<close>: the fields between slashes, of which there is always at least one.\<close>

fun split_sep :: "string \<Rightarrow> string list" where
  "split_sep [] = [[]]"
| "split_sep (c # cs) =
     (if c = CHR ''/'' then [] # split_sep cs
      else (case split_sep cs of
              [] \<Rightarrow> [[c]]
            | w # ws \<Rightarrow> (c # w) # ws))"

text \<open>\<^verbatim>\<open>'/'.join(comps)\<close>.\<close>

fun join_sep :: "string list \<Rightarrow> string" where
  "join_sep [] = []"
| "join_sep [w] = w"
| "join_sep (w # ws) = w @ ''/'' @ join_sep ws"

text \<open>The loop of \<^verbatim>\<open>normpath\<close> over the fields; \<open>anchored\<close> is true when the path starts
  with a slash.\<close>

fun norm_comps :: "bool \<Rightarrow> string list \<Rightarrow> string list \<Rightarrow> string list" where
  "norm_comps anchored new_comps [] = new_comps"
| "norm_comps anchored new_comps (part # parts) =
     (if part = '''' \<or> part = ''.'' then norm_comps anchored new_comps parts
      else if part \<noteq> ''..'' \<or> (\<not> anchored \<and> new_comps = [])
              \<or> (new_comps \<noteq> [] \<and> last new_comps = ''..'')
        then norm_comps anchored (new_comps @ [part]) parts
      else if new_comps \<noteq> [] then norm_comps anchored (butlast new_comps) parts
      else norm_comps anchored new_comps parts)"

text \<open>The slashes \<^verbatim>\<open>normpath\<close> keeps in front: two when the path starts with exactly two.\<close>

definition initial_slashes :: "string \<Rightarrow> string" where
  "initial_slashes p =
     (if take 1 p = ''/'' then (if take 2 p = ''//'' \<and> take 3 p \<noteq> ''///'' then ''//'' else ''/'')
      else [])"

definition normpath :: "string \<Rightarrow> string" where
  "normpath p =
     (if p = [] then ''.''
      else (let q = initial_slashes p
                    @ join_sep (norm_comps (initial_slashes p \<noteq> []) [] (split_sep p))
            in if q = [] then ''.'' else q))"

definition abspath :: "string \<Rightarrow> string \<Rightarrow> string" where
  "abspath cwd p = normpath (if isabs p then p else path_join cwd p)"

fun common_prefix :: "'a list \<Rightarrow> 'a list \<Rightarrow> 'a list" where
  "common_prefix (x # xs) (y # ys) = (if x = y then x # common_prefix xs ys else [])"
| "common_prefix xs ys = []"

text \<open>
  \<^verbatim>\<open>os.path.relpath(path, start)\<close>. The source raises \<^verbatim>\<open>ValueError\<close> on an empty path; the
  walk only passes joins of a non-empty directory name, so that branch is left out.
\<close>

definition relpath :: "string \<Rightarrow> string \<Rightarrow> string \<Rightarrow> string" where
  "relpath cwd path start =
     (let start_list = filter (\<lambda>x. x \<noteq> []) (split_sep (abspath cwd start));
          path_list = filter (\<lambda>x. x \<noteq> []) (split_sep (abspath cwd path));
          i = length (common_prefix start_list path_list);
          rel_list = replicate (length start_list - i) ''..'' @ drop i path_list
      in (case rel_list of
            [] \<Rightarrow> ''.''
          | r # rs \<Rightarrow> foldl path_join r rs))"


section \<open>The file system\<close>

text \<open>
  A directory tree: a file is what reading it yields, a directory is the list of its
  entries in the order \<^verbatim>\<open>os.listdir\<close> returns them. The tree has no symbolic links to
  directories, so a walk over it ends. A \<open>filesystem\<close> resolves a path name to a node,
  as the operating system does for \<^verbatim>\<open>open\<close>, \<^verbatim>\<open>os.path.exists\<close> and \<^verbatim>\<open>os.path.isdir\<close>.
\<close>

datatype node = File read_result | Dir "(string \<times> node) list"

type_synonym filesystem = "string \<Rightarrow> node option"

definition EISDIR :: nat where
  "EISDIR = 21"

definition open_read :: "node option \<Rightarrow> read_result" where
  "open_read n =
     (case n of
        None \<Rightarrow> ReadError ENOENT
      | Some (File r) \<Rightarrow> r
      | Some (Dir entries) \<Rightarrow> ReadError EISDIR)"

text \<open>\<^verbatim>\<open>os.path.exists\<close>.\<close>

definition path_exists :: "filesystem \<Rightarrow> string \<Rightarrow> bool" where
  "path_exists fsys p \<longleftrightarrow> fsys p \<noteq> None"

definition disk_of :: "filesystem \<Rightarrow> disk" where
  "disk_of fsys p = open_read (fsys p)"

text \<open>The entries of the directory \<open>path\<close>, as a resolver for the paths \<^verbatim>\<open>join(path, n)\<close>.\<close>

definition dir_entries :: "string \<Rightarrow> (string \<times> node) list \<Rightarrow> filesystem" where
  "dir_entries path children = map_of (map (\<lambda>(n, c). (path_join path n, c)) children)"

text \<open>\<^verbatim>\<open>fd.readlines()\<close>: the lines of a file, each with its newline.\<close>

fun readlines :: "string \<Rightarrow> string list" where
  "readlines [] = []"
| "readlines (c # cs) =
     (if c = CHR 0x0A then [c] # readlines cs
      else (case readlines cs of
              [] \<Rightarrow> [[c]]
            | l # ls \<Rightarrow> (c # l) # ls))"

fun ignore_lines :: "filesystem \<Rightarrow> string \<Rightarrow> error + string list" where
  "ignore_lines fsys path =
     (if path_exists fsys path then
        (case open_read (fsys path) of
           Content c \<Rightarrow> Inr (readlines c)
         | ReadError e \<Rightarrow> Inl (IOError e))
      else Inr [])"

definition get_ignores :: "filesystem \<Rightarrow> string \<Rightarrow> error + string list" where
  "get_ignores fsys directory =
     (case ignore_lines fsys (path_join directory ''.gitignore'') of
        Inl e \<Rightarrow> Inl e
      | Inr a \<Rightarrow>
          (case ignore_lines fsys (path_join directory ''.forgeignore'') of
             Inl e \<Rightarrow> Inl e
           | Inr b \<Rightarrow> Inr (a @ b)))"

text \<open>
  \<^verbatim>\<open>get_ancestors(path, stop)\<close> for a path and a stop that \<^verbatim>\<open>abspath\<close> leaves unchanged, as
  in \<^verbatim>\<open>search\<close>: the directories from \<open>stop\<close> down to the parent of \<open>path\<close>. Where
  \<^verbatim>\<open>dirname\<close> no longer shortens the path the source recurses until the interpreter gives up.
\<close>

function get_ancestors :: "(string \<Rightarrow> string \<Rightarrow> bool) \<Rightarrow> string \<Rightarrow> string \<Rightarrow> error + string list" where
  "get_ancestors samefile path stop =
     (if samefile path stop then Inr []
      else if length (dirname path) < length path then
        (case get_ancestors samefile (dirname path) stop of
           Inl e \<Rightarrow> Inl e
         | Inr ds \<Rightarrow> Inr (ds @ [dirname path]))
      else Inl (OtherError ''RuntimeError: maximum recursion depth exceeded''))"
  by pat_completeness auto
termination
  by (relation "measure (\<lambda>(samefile, path, stop). length path)") auto

declare get_ancestors.simps [simp del]

section \<open>Descriptors\<close>

text \<open>
  Modelled from the spec: \<^verbatim>\<open>yamlutil.load\<close> is not part of the sources. It parses a file into
  its YAML documents or raises; a document is represented by the keys of its top-level
  mapping, which is all \<^verbatim>\<open>is_service_descriptor\<close> asks of it.
\<close>

type_synonym yaml_doc = "string list"

datatype yaml_result =
    Documents "yaml_doc list"
  | ParserError string
  | ScannerError string
  | LoadRaises error

definition is_service_descriptor :: "(string \<Rightarrow> yaml_result) \<Rightarrow> string \<Rightarrow> error + bool" where
  "is_service_descriptor load path =
     (case load path of
        ParserError e \<Rightarrow> Inr True
      | ScannerError e \<Rightarrow> Inr True
      | LoadRaises e \<Rightarrow> Inl e
      | Documents objs \<Rightarrow>
          (case objs of
             [] \<Rightarrow> Inr True
           | first # rest \<Rightarrow>
               if ''apiVersion'' \<in> set first \<and> ''kind'' \<in> set first \<and> ''metadata'' \<in> set first
               then Inr False
               else Inr True))"

text \<open>What the module reads of a loaded descriptor: its \<^verbatim>\<open>name\<close> and \<^verbatim>\<open>requires\<close> entries.\<close>

datatype requires_value = ReqString string | ReqList "string list"

record service_info =
  info_name :: "string option"
  info_requires :: "requires_value option"

text \<open>
  Modelled from the spec: \<^verbatim>\<open>service_info.load\<close> and the template renderer are not part of
  the sources. Loading yields the descriptor's contents or raises a schema error or one
  of the two YAML syntax errors, each with its message.
\<close>

datatype info_result =
    Info service_info
  | SchemaError string
  | InfoParserError string
  | InfoScannerError string
  | InfoRaises error

section \<open>Services\<close>

text \<open>
  A \<^verbatim>\<open>Service\<close> object. \<^verbatim>\<open>info()\<close> is cached on the object and \<^verbatim>\<open>search\<close>, the only place
  that creates a \<^verbatim>\<open>Service\<close>, asks for its name at once, so the loaded descriptor is a field.
  The version is computed on demand and cached.
\<close>

record service =
  descriptor :: string
  shallow :: bool
  dockerfiles :: "string list"
  files :: "string list"
  gitroot :: "string option"
  has_git :: bool
  branch :: "string option"
  forgeroot :: string
  info :: service_info
  version_cache :: "string option"

definition service_root :: "service \<Rightarrow> string" where
  "service_root svc = dirname (descriptor svc)"

definition service_name :: "service \<Rightarrow> string" where
  "service_name svc =
     (case info_name (info svc) of
        Some n \<Rightarrow> n
      | None \<Rightarrow> basename (service_root svc))"

definition service_requires :: "service \<Rightarrow> string list" where
  "service_requires svc =
     (case info_requires (info svc) of
        None \<Rightarrow> []
      | Some (ReqString s) \<Rightarrow> [s]
      | Some (ReqList l) \<Rightarrow> l)"

section \<open>The environment\<close>

text \<open>
  The collaborators of the module, which are not part of the sources, are the fields of
  \<open>env\<close>: \<^verbatim>\<open>pathspec\<close> matching, the YAML and descriptor loaders, \<^verbatim>\<open>util.search_parents\<close>,
  \<^verbatim>\<open>os.path.samefile\<close>, the shell, the \<^verbatim>\<open>Github\<close> client and the settings of the
  \<^verbatim>\<open>forge\<close> object.
\<close>

record env =
  cwd :: string
  match_file :: "string list \<Rightarrow> string \<Rightarrow> bool"
  yamlutil_load :: "filesystem \<Rightarrow> string \<Rightarrow> yaml_result"
  renders :: "string \<Rightarrow> string \<Rightarrow> string option \<Rightarrow> error + string"
  service_info_load :: "string \<Rightarrow> string \<Rightarrow> info_result"
  search_parents :: "filesystem \<Rightarrow> string \<Rightarrow> string \<Rightarrow> bool \<Rightarrow> string option"
  samefile :: "filesystem \<Rightarrow> string \<Rightarrow> string \<Rightarrow> bool"
  sh :: shell
  forge_branch :: "string option"
  forge_base :: string
  search_path_of :: "service \<Rightarrow> string list"
  gh_remote :: "filesystem \<Rightarrow> string \<Rightarrow> error + string option"
  gh_exists :: "string \<Rightarrow> error + bool"
  gh_clone :: "filesystem \<Rightarrow> string \<Rightarrow> string \<Rightarrow> error + filesystem"

definition load_service_yamls :: "env \<Rightarrow> string \<Rightarrow> string \<Rightarrow> string option \<Rightarrow> error + service_info" where
  "load_service_yamls E nm content br =
     (case renders E nm content br of
        Inl e \<Rightarrow> Inl e
      | Inr rendered \<Rightarrow>
          (case service_info_load E nm rendered of
             Info i \<Rightarrow> Inr i
           | SchemaError m \<Rightarrow> Inl (TaskError (''error parsing service yaml: '' @ m))
           | InfoParserError m \<Rightarrow> Inl (TaskError (''error parsing service yaml: '' @ m))
           | InfoScannerError m \<Rightarrow> Inl (TaskError (''error parsing service yaml: '' @ m))
           | InfoRaises e \<Rightarrow> Inl e))"

definition load_service_yaml :: "env \<Rightarrow> filesystem \<Rightarrow> string \<Rightarrow> string option \<Rightarrow> error + service_info" where
  "load_service_yaml E fsys path br =
     (case open_read (fsys path) of
        ReadError e \<Rightarrow> Inl (IOError e)
      | Content c \<Rightarrow> load_service_yamls E path c br)"

section \<open>Creating services\<close>

text \<open>The branch chosen by \<^verbatim>\<open>Service.__init__\<close>.\<close>

definition init_branch :: "env \<Rightarrow> string \<Rightarrow> bool \<Rightarrow> error + string option" where
  "init_branch E dir git =
     (case forge_branch E of
        Some b \<Rightarrow> Inr (Some b)
      | None \<Rightarrow>
          if git then
            (case sh E [''git'', ''rev-parse'', ''--abbrev-ref'', ''HEAD''] dir None of
               Inl e \<Rightarrow> Inl e
             | Inr r \<Rightarrow> Inr (if strip (sh_output r) = ''HEAD'' then None else Some (strip (sh_output r))))
          else Inr None)"

text \<open>\<^verbatim>\<open>Service(forge, descriptor, shallow)\<close> followed by the first \<^verbatim>\<open>info()\<close>.\<close>

definition new_service :: "env \<Rightarrow> filesystem \<Rightarrow> filesystem \<Rightarrow> string \<Rightarrow> bool \<Rightarrow> error + service" where
  "new_service E fsys lfs desc shal =
     (let gitdir = search_parents E fsys ''.git'' (dirname desc) False
      in case init_branch E (dirname desc) (gitdir \<noteq> None) of
           Inl e \<Rightarrow> Inl e
         | Inr br \<Rightarrow>
             (case search_parents E fsys ''service.yaml'' (dirname desc) True of
                None \<Rightarrow> Inl (OtherError ''AttributeError'')
              | Some topd \<Rightarrow>
                  (case load_service_yaml E lfs desc br of
                     Inl e \<Rightarrow> Inl e
                   | Inr i \<Rightarrow>
                       Inr \<lparr>descriptor = desc, shallow = shal, dockerfiles = [], files = [],
                            gitroot = map_option dirname gitdir, has_git = (gitdir \<noteq> None),
                            branch = br, forgeroot = dirname topd, info = i,
                            version_cache = None\<rparr>)))"

section \<open>The version of a service\<close>

text \<open>
  The \<^verbatim>\<open>version\<close> property. The argument \<^verbatim>\<open>"%s.sha" % shafiles(...)\<close> is evaluated before
  \<^verbatim>\<open>get_version\<close> is called, so the content hash is computed, and can raise, whatever
  the state of the working tree. The result is cached on the object.
\<close>

definition service_version :: "env \<Rightarrow> filesystem \<Rightarrow> service \<Rightarrow> (error + string) \<times> service" where
  "service_version E fsys svc =
     (case version_cache svc of
        Some v \<Rightarrow> (Inr v, svc)
      | None \<Rightarrow>
          (case shafiles (disk_of fsys) (service_root svc) (files svc) of
             Inl e \<Rightarrow> (Inl e, svc)
           | Inr h \<Rightarrow>
               (case get_version (path_exists fsys) (sh E) (service_root svc) (h @ ''.sha'') of
                  Inl e \<Rightarrow> (Inl e, svc)
                | Inr v \<Rightarrow> (Inr v, svc\<lparr>version_cache := Some v\<rparr>))))"

section \<open>Discovery\<close>

text \<open>
  The state of a \<^verbatim>\<open>Discovery\<close> object and of the world around it. \<^verbatim>\<open>Service\<close> objects
  are mutable and shared between the registry, the result lists and the walk, so they
  live in a heap and are named by their index in it. \<open>services\<close> is the registry, an
  \<^verbatim>\<open>OrderedDict\<close> from names to services.
\<close>

record state =
  heap :: "service list"
  services :: "(string \<times> nat) list"
  fs :: filesystem

type_synonym walk = "state \<times> nat list"

fun nsize :: "node \<Rightarrow> nat" and lsize :: "(string \<times> node) list \<Rightarrow> nat" where
  "nsize (File r) = 1"
| "nsize (Dir entries) = Suc (lsize entries)"
| "lsize [] = 0"
| "lsize ((n, c) # rest) = Suc (nsize c + lsize rest)"

lemma lsize_filter: "lsize (filter P xs) \<le> lsize xs"
  by (induction xs) auto

text \<open>The names of a directory that the effective ignore patterns let through.\<close>

definition listed :: "env \<Rightarrow> string \<Rightarrow> string list \<Rightarrow> string \<Rightarrow> (string \<times> node) list \<Rightarrow> (string \<times> node) list" where
  "listed E directory ignores path children =
     filter (\<lambda>(n, c). \<not> match_file E ignores (relpath (cwd E) (path_join path n) directory)) children"

definition append_file :: "nat \<Rightarrow> string \<Rightarrow> state \<Rightarrow> state" where
  "append_file r f st = st\<lparr>heap := (heap st)[r := (heap st ! r)\<lparr>files := files (heap st ! r) @ [f]\<rparr>]\<rparr>"

definition append_dockerfile :: "nat \<Rightarrow> string \<Rightarrow> state \<Rightarrow> state" where
  "append_dockerfile r f st =
     st\<lparr>heap := (heap st)[r := (heap st ! r)\<lparr>dockerfiles := dockerfiles (heap st ! r) @ [f]\<rparr>]\<rparr>"

text \<open>
  What \<^verbatim>\<open>descend\<close> does when \<^verbatim>\<open>service.yaml\<close> is among the names: a genuine descriptor
  makes a new service, which is registered unless its name is taken, is appended to
  \<open>found\<close> in any case, and becomes the parent.
\<close>

definition visit_descriptor ::
  "env \<Rightarrow> bool \<Rightarrow> (string \<times> node) list \<Rightarrow> filesystem \<Rightarrow> string \<Rightarrow> nat option \<Rightarrow> walk
     \<Rightarrow> error + nat option \<times> walk" where
  "visit_descriptor E shal names lfs path parent w =
     (if ''service.yaml'' \<in> fst ` set names then
        (case is_service_descriptor (yamlutil_load E lfs) (path_join path ''service.yaml'') of
           Inl e \<Rightarrow> Inl e
         | Inr False \<Rightarrow> Inr (parent, w)
         | Inr True \<Rightarrow>
             (case new_service E (fs (fst w)) lfs (path_join path ''service.yaml'') shal of
                Inl e \<Rightarrow> Inl e
              | Inr svc \<Rightarrow>
                  Inr (Some (length (heap (fst w))),
                       (fst w)\<lparr>heap := heap (fst w) @ [svc],
                                services :=
                                  (if service_name svc \<notin> fst ` set (services (fst w))
                                   then services (fst w) @ [(service_name svc, length (heap (fst w)))]
                                   else services (fst w))\<rparr>,
                       snd w @ [length (heap (fst w))])))
      else Inr (parent, w))"

text \<open>A \<^verbatim>\<open>Dockerfile\<close> among the names is recorded with the enclosing service, if there is one.\<close>

definition visit_dockerfile :: "env \<Rightarrow> (string \<times> node) list \<Rightarrow> string \<Rightarrow> nat option \<Rightarrow> walk \<Rightarrow> walk" where
  "visit_dockerfile E names path parent w =
     (case parent of
        Some r \<Rightarrow>
          if ''Dockerfile'' \<in> fst ` set names
          then (append_dockerfile r
                  (relpath (cwd E) (path_join path ''Dockerfile'') (service_root (heap (fst w) ! r)))
                  (fst w), snd w)
          else w
      | None \<Rightarrow> w)"

text \<open>
  The walk. \<^verbatim>\<open>descend\<close> reads the directory's own ignore files, lists the names that the
  patterns let through, looks at \<^verbatim>\<open>service.yaml\<close> and \<^verbatim>\<open>Dockerfile\<close>, and then
  \<open>descend_names\<close>, the loop over the names, recurses into directories and records
  files with the enclosing service. The check \<^verbatim>\<open>os.path.exists(path)\<close> at the head of
  \<^verbatim>\<open>descend\<close> cannot fail on a tree that does not change during the walk.
\<close>

function descend ::
    "env \<Rightarrow> string \<Rightarrow> bool \<Rightarrow> (string \<times> node) list \<Rightarrow> string \<Rightarrow> nat option \<Rightarrow> string list \<Rightarrow> walk \<Rightarrow> error + walk"
  and descend_names ::
    "env \<Rightarrow> string \<Rightarrow> bool \<Rightarrow> (string \<times> node) list \<Rightarrow> string \<Rightarrow> nat option \<Rightarrow> string list \<Rightarrow> walk \<Rightarrow> error + walk"
where
  "descend E directory shal children path parent ignores0 w =
     (case get_ignores (dir_entries path children) path of
        Inl e \<Rightarrow> Inl e
      | Inr own \<Rightarrow>
          (case visit_descriptor E shal (listed E directory (ignores0 @ own) path children)
                  (dir_entries path children) path parent w of
             Inl e \<Rightarrow> Inl e
           | Inr (parent', w') \<Rightarrow>
               descend_names E directory shal (listed E directory (ignores0 @ own) path children)
                 path parent' (ignores0 @ own)
                 (visit_dockerfile E (listed E directory (ignores0 @ own) path children)
                    path parent' w')))"
| "descend_names E directory shal [] path parent ignores w = Inr w"
| "descend_names E directory shal ((n, c) # rest) path parent ignores w =
     (case c of
        Dir entries \<Rightarrow>
          (case descend E directory shal entries (path_join path n) parent ignores w of
             Inl e \<Rightarrow> Inl e
           | Inr w' \<Rightarrow> descend_names E directory shal rest path parent ignores w')
      | File r \<Rightarrow>
          (case parent of
             Some p \<Rightarrow>
               descend_names E directory shal rest path parent ignores
                 (append_file p (relpath (cwd E) (path_join path n) (service_root (heap (fst w) ! p)))
                    (fst w), snd w)
           | None \<Rightarrow> descend_names E directory shal rest path parent ignores w))"
  by pat_completeness auto
termination
  by (relation "measure (\<lambda>x. case x of
        Inl (E, directory, shal, children, rest) \<Rightarrow> Suc (lsize children)
      | Inr (E, directory, shal, names, rest) \<Rightarrow> lsize names)")
     (auto simp: listed_def le_imp_less_Suc [OF lsize_filter])

declare descend.simps [simp del]

fun extend_ignores :: "filesystem \<Rightarrow> string list \<Rightarrow> string list \<Rightarrow> error + string list" where
  "extend_ignores fsys [] base_ignores = Inr base_ignores"
| "extend_ignores fsys (d # ds) base_ignores =
     (case get_ignores fsys d of
        Inl e \<Rightarrow> Inl e
      | Inr own \<Rightarrow> extend_ignores fsys ds (base_ignores @ own))"

definition gitroot_of :: "env \<Rightarrow> filesystem \<Rightarrow> string \<Rightarrow> string" where
  "gitroot_of E fsys directory =
     (case search_parents E fsys ''.git'' directory False of
        None \<Rightarrow> directory
      | Some gitdir \<Rightarrow> dirname gitdir)"

definition search :: "env \<Rightarrow> state \<Rightarrow> string \<Rightarrow> bool \<Rightarrow> error + nat list \<times> state" where
  "search E st directory0 shal =
     (case fs st (abspath (cwd E) directory0) of
        None \<Rightarrow> Inl (TaskError (''no such directory: '' @ abspath (cwd E) directory0))
      | Some (File r) \<Rightarrow> Inl (TaskError (''not a directory: '' @ abspath (cwd E) directory0))
      | Some (Dir children) \<Rightarrow>
          (case get_ancestors (samefile E (fs st))
                  (abspath (cwd E) (abspath (cwd E) directory0))
                  (abspath (cwd E) (gitroot_of E (fs st) (abspath (cwd E) directory0))) of
             Inl e \<Rightarrow> Inl e
           | Inr ds \<Rightarrow>
               (case extend_ignores (fs st) ds [''.git'', ''.forge''] of
                  Inl e \<Rightarrow> Inl e
                | Inr base_ignores \<Rightarrow>
                    (case descend E (abspath (cwd E) directory0) shal children
                            (abspath (cwd E) directory0) None base_ignores (st, []) of
                       Inl e \<Rightarrow> Inl e
                     | Inr (st', found) \<Rightarrow> Inr (found, st')))))"

section \<open>Dependencies\<close>

fun str_join :: "string \<Rightarrow> string list \<Rightarrow> string" where
  "str_join sep [] = []"
| "str_join sep [w] = w"
| "str_join sep (w # ws) = w @ sep @ str_join sep ws"

definition get_search_path :: "env \<Rightarrow> service \<Rightarrow> string list" where
  "get_search_path E svc = map (path_join (forge_base E)) (search_path_of E svc)"

definition found_names :: "state \<Rightarrow> nat list \<Rightarrow> string list" where
  "found_names st found = map (\<lambda>r. service_name (heap st ! r)) found"

text \<open>
  The first loop of \<^verbatim>\<open>resolve\<close>: search each directory of the search path in turn. In
  Python 2 the variable of a list comprehension is a variable of the enclosing function,
  so \<^verbatim>\<open>[svc.name for svc in found]\<close> leaves \<^verbatim>\<open>svc\<close> bound to the last service found whenever
  the search found any. \<open>rebound\<close> is that assignment, and the loop returns the service
  \<^verbatim>\<open>svc\<close> stands for when it ends. The search path is that of the requesting service: the
  generator \<^verbatim>\<open>get_search_path\<close> has received it as an argument.
\<close>

definition rebound :: "nat \<Rightarrow> nat list \<Rightarrow> nat" where
  "rebound svc found = (if found = [] then svc else last found)"

fun resolve_local ::
  "env \<Rightarrow> string \<Rightarrow> string list \<Rightarrow> state \<Rightarrow> nat \<Rightarrow> error + bool \<times> state \<times> nat" where
  "resolve_local E dep [] st svc = Inr (False, st, svc)"
| "resolve_local E dep (path # paths) st svc =
     (case search E st path False of
        Inl e \<Rightarrow> Inl e
      | Inr (found, st') \<Rightarrow>
          if dep \<in> set (found_names st' found) then Inr (True, st', rebound svc found)
          else resolve_local E dep paths st' (rebound svc found))"

text \<open>
  The middle of \<^verbatim>\<open>resolve\<close>: make sure the clone directory exists. \<open>None\<close> is the early
  \<^verbatim>\<open>return False\<close> when the service has no remote.
\<close>

definition fetch :: "env \<Rightarrow> state \<Rightarrow> service \<Rightarrow> string \<Rightarrow> string \<Rightarrow> error + state option" where
  "fetch E st svc dep target =
     (if path_exists (fs st) target then Inr (Some st)
      else
        (case gh_remote E (fs st) (service_root svc) of
           Inl e \<Rightarrow> Inl e
         | Inr None \<Rightarrow> Inr None
         | Inr (Some url) \<Rightarrow>
             (case gh_exists E (str_join ''/'' (butlast (split_sep url)) @ ''/'' @ dep @ ''.git'') of
                Inl e \<Rightarrow> Inl e
              | Inr True \<Rightarrow>
                  (case gh_clone E (fs st)
                          (str_join ''/'' (butlast (split_sep url)) @ ''/'' @ dep @ ''.git'') target of
                     Inl e \<Rightarrow> Inl e
                   | Inr fs' \<Rightarrow> Inr (Some (st\<lparr>fs := fs'\<rparr>)))
              | Inr False \<Rightarrow> Inl (TaskError (''cannot resolve dependency: '' @ dep)))))"

text \<open>
  \<^verbatim>\<open>resolve\<close>. After the loop over the search path, \<^verbatim>\<open>svc.forgeroot\<close> and \<^verbatim>\<open>svc.root\<close> are
  read from the service \<^verbatim>\<open>svc\<close> then stands for.
\<close>

definition resolve :: "env \<Rightarrow> state \<Rightarrow> nat \<Rightarrow> string \<Rightarrow> error + bool \<times> state" where
  "resolve E st svc dep =
     (case resolve_local E dep (get_search_path E (heap st ! svc)) st svc of
        Inl e \<Rightarrow> Inl e
      | Inr (True, st', svc') \<Rightarrow> Inr (True, st')
      | Inr (False, st', svc') \<Rightarrow>
          (case fetch E st' (heap st' ! svc') dep
                  (path_join (path_join (forgeroot (heap st' ! svc')) ''.forge'') dep) of
             Inl e \<Rightarrow> Inl e
           | Inr None \<Rightarrow> Inr (False, st')
           | Inr (Some st'') \<Rightarrow>
               (case search E st''
                       (path_join (path_join (forgeroot (heap st' ! svc')) ''.forge'') dep) True of
                  Inl e \<Rightarrow> Inl e
                | Inr (found, st3) \<Rightarrow> Inr (dep \<in> set (found_names st3 found), st3))))"

text \<open>The variables of the loop in \<^verbatim>\<open>dependencies\<close>; \<open>visited\<close> holds object identities.\<close>

record deps =
  todo :: "nat list"
  visited :: "nat set"
  added :: "string list"
  missing :: "string list"

fun lookup_all :: "(string \<times> nat) list \<Rightarrow> string list \<Rightarrow> error + nat list" where
  "lookup_all reg [] = Inr []"
| "lookup_all reg (t # ts) =
     (case map_of reg t of
        None \<Rightarrow> Inl (KeyError t)
      | Some s \<Rightarrow>
          (case lookup_all reg ts of
             Inl e \<Rightarrow> Inl e
           | Inr ss \<Rightarrow> Inr (s # ss)))"

text \<open>The three steps the loop takes for one required name.\<close>

definition note_missing :: "string \<Rightarrow> bool \<Rightarrow> deps \<Rightarrow> deps" where
  "note_missing r ok d = (if \<not> ok \<and> r \<notin> set (missing d) then d\<lparr>missing := missing d @ [r]\<rparr> else d)"

definition note_added :: "string list \<Rightarrow> string \<Rightarrow> deps \<Rightarrow> deps" where
  "note_added targets r d =
     (if r \<notin> set targets \<and> r \<notin> set (added d) then d\<lparr>added := added d @ [r]\<rparr> else d)"

definition push_known :: "state \<Rightarrow> string \<Rightarrow> deps \<Rightarrow> deps" where
  "push_known st r d =
     (case map_of (services st) r of
        Some s \<Rightarrow> d\<lparr>todo := todo d @ [s]\<rparr>
      | None \<Rightarrow> d)"

fun requires_loop ::
  "env \<Rightarrow> string list \<Rightarrow> nat \<Rightarrow> string list \<Rightarrow> state \<Rightarrow> deps \<Rightarrow> error + state \<times> deps" where
  "requires_loop E targets root_svc [] st d = Inr (st, d)"
| "requires_loop E targets root_svc (r # rs) st d =
     (if map_of (services st) r = None then
        (case resolve E st root_svc r of
           Inl e \<Rightarrow> Inl e
         | Inr (ok, st') \<Rightarrow>
             requires_loop E targets root_svc rs st'
               (push_known st' r (note_added targets r (note_missing r ok d))))
      else requires_loop E targets root_svc rs st (push_known st r (note_added targets r d)))"

partial_function (option) dependencies_loop ::
  "env \<Rightarrow> string list \<Rightarrow> nat \<Rightarrow> state \<Rightarrow> deps \<Rightarrow> (error + string list) option" where
  "dependencies_loop E targets root_svc st d =
     (if todo d = [] then
        Some (if missing d \<noteq> []
              then Inl (TaskError (''required service(s) missing: '' @ str_join '', '' (missing d)))
              else Inr (added d))
      else if last (todo d) \<in> visited d then
        dependencies_loop E targets root_svc st (d\<lparr>todo := butlast (todo d)\<rparr>)
      else
        (case requires_loop E targets root_svc (service_requires (heap st ! last (todo d))) st
                (d\<lparr>todo := butlast (todo d), visited := insert (last (todo d)) (visited d)\<rparr>) of
           Inl e \<Rightarrow> Some (Inl e)
         | Inr (st', d') \<Rightarrow> dependencies_loop E targets root_svc st' d'))"

definition dependencies :: "env \<Rightarrow> state \<Rightarrow> string list \<Rightarrow> (error + string list) option" where
  "dependencies E st targets =
     (case lookup_all (services st) targets of
        Inl e \<Rightarrow> Some (Inl e)
      | Inr [] \<Rightarrow> Some (Inl IndexError)
      | Inr (root_svc # others) \<Rightarrow>
          dependencies_loop E targets root_svc st
            \<lparr>todo = root_svc # others, visited = {}, added = [], missing = []\<rparr>)"

section \<open>Examples\<close>

text \<open>
  A service rooted at \<^verbatim>\<open>/svc\<close> inside a git working tree, on the example disk; a shell that
  answers \<^verbatim>\<open>git diff\<close> with a given exit code and \<^verbatim>\<open>git log\<close> with a given line.
\<close>

definition example_fs :: filesystem where
  "example_fs p =
     (if p = ''/svc/.git'' then Some (Dir [])
      else (case example_disk p of
              Content c \<Rightarrow> Some (File (Content c))
            | ReadError e \<Rightarrow> if e = ENOENT then None else Some (File (ReadError e))))"

definition example_sh :: "int \<Rightarrow> string \<Rightarrow> shell" where
  "example_sh diff_code log_output args dir expected =
     (if args = git_diff_args then Inr \<lparr>code = diff_code, sh_output = []\<rparr>
      else if args = git_log_args then Inr \<lparr>code = 0, sh_output = log_output\<rparr>
      else Inr \<lparr>code = 0, sh_output = ''master'' @ [CHR 0x0A]\<rparr>)"

definition example_log :: string where
  "example_log = ''9fceb02d0ae598e95dc970b74767f19372d61af8 add a'' @ [CHR 0x0A]"

definition example_service :: "string list \<Rightarrow> service" where
  "example_service fl =
     \<lparr>descriptor = ''/svc/service.yaml'', shallow = False, dockerfiles = [], files = fl,
      gitroot = Some ''/svc'', has_git = True, branch = None, forgeroot = ''/svc'',
      info = \<lparr>info_name = None, info_requires = None\<rparr>, version_cache = None\<rparr>"

text \<open>
  Stand-ins for the collaborators. A pattern matches a path when it equals the last
  component, or starts with \<^verbatim>\<open>*\<close> and the rest ends the component. A file starting with
  \<^verbatim>\<open>apiVersion\<close> parses as a Kubernetes resource and one starting with a brace does not parse. A descriptor \<^verbatim>\<open>name:dep\<close> gives the
  service's name and one required service.
\<close>

definition glob :: "string \<Rightarrow> string \<Rightarrow> bool" where
  "glob pat nm =
     (case pat of
        [] \<Rightarrow> False
      | c # rest \<Rightarrow>
          if c = CHR ''*'' then length rest \<le> length nm \<and> drop (length nm - length rest) nm = rest
          else pat = nm)"

definition example_match :: "string list \<Rightarrow> string \<Rightarrow> bool" where
  "example_match ignores p = list_ex (\<lambda>line. glob (strip line) (basename p)) ignores"

definition example_yaml :: "filesystem \<Rightarrow> string \<Rightarrow> yaml_result" where
  "example_yaml fsys path =
     (case open_read (fsys path) of
        Content c \<Rightarrow>
          if take 1 c = ''{'' then ParserError ''expected the node content''
          else if take 10 c = ''apiVersion'' then Documents [[''apiVersion'', ''kind'', ''metadata'']]
          else Documents [[''name'']]
      | ReadError e \<Rightarrow> LoadRaises (IOError e))"

definition example_info :: "string \<Rightarrow> string \<Rightarrow> info_result" where
  "example_info nm c =
     Info \<lparr>info_name = (if takeWhile (\<lambda>x. x \<noteq> CHR '':'') c = [] then None
                         else Some (takeWhile (\<lambda>x. x \<noteq> CHR '':'') c)),
           info_requires = (case dropWhile (\<lambda>x. x \<noteq> CHR '':'') c of
                              [] \<Rightarrow> None
                            | x # r \<Rightarrow> Some (ReqList [r]))\<rparr>"

definition example_env :: env where
  "example_env =
     \<lparr>cwd = ''/'',
      match_file = example_match,
      yamlutil_load = example_yaml,
      renders = (\<lambda>nm content br. Inr content),
      service_info_load = example_info,
      search_parents = (\<lambda>fsys nm start top.
         if nm = ''service.yaml'' then Some (path_join start ''service.yaml'')
         else Some ''/repo/.git''),
      samefile = (\<lambda>fsys p q. p = q),
      sh = example_sh 0 example_log,
      forge_branch = None,
      forge_base = ''/'',
      search_path_of = (\<lambda>svc. []),
      gh_remote = (\<lambda>fsys p. Inr None),
      gh_exists = (\<lambda>url. Inr False),
      gh_clone = (\<lambda>fsys remote target. Inr fsys)\<rparr>"

text \<open>
  A repository \<^verbatim>\<open>/repo\<close> that ignores \<^verbatim>\<open>*.log\<close>, and under it the walk root \<^verbatim>\<open>/repo/w\<close>: two
  services whose descriptors both give the name \<^verbatim>\<open>app\<close>, a directory with an ignore file of
  its own, a sibling directory, and a Kubernetes manifest named \<^verbatim>\<open>service.yaml\<close>.
\<close>

definition example_tree :: "(string \<times> node) list" where
  "example_tree =
     [(''svc1'', Dir
         [(''service.yaml'', File (Content ''app:db'')),
          (''Dockerfile'', File (Content ''FROM x'')),
          (''main.py'', File (Content ''m'')),
          (''build.log'', File (Content ''l'')),
          (''sub'', Dir
             [(''.gitignore'', File (Content (''tmp'' @ [CHR 0x0A]))),
              (''tmp'', File (Content ''t'')),
              (''util.py'', File (Content ''u'')),
              (''debug.log'', File (Content ''d''))]),
          (''other'', Dir [(''tmp'', File (Content ''o''))])]),
      (''svc2'', Dir
         [(''service.yaml'', File (Content ''app'')),
          (''k8s'', Dir [(''service.yaml'', File (Content ''apiVersion: v1''))])]),
      (''README'', File (Content ''r''))]"

definition example_world :: filesystem where
  "example_world p =
     (if p = ''/repo/w'' then Some (Dir example_tree)
      else if p = ''/repo/.gitignore'' then Some (File (Content (''*.log'' @ [CHR 0x0A])))
      else None)"

definition example_state :: state where
  "example_state = \<lparr>heap = [], services = [], fs = example_world\<rparr>"


definition named_service :: "string \<Rightarrow> string list \<Rightarrow> service" where
  "named_service n reqs =
     (example_service [])\<lparr>info := \<lparr>info_name = Some n, info_requires = Some (ReqList reqs)\<rparr>\<rparr>"

definition chain_state :: state where
  "chain_state =
     \<lparr>heap = [named_service ''A'' [''B''], named_service ''B'' [''C''], named_service ''C'' []],
      services = [(''A'', 0), (''B'', 1), (''C'', 2)],
      fs = example_world\<rparr>"

text \<open>The aggregate error of \<^verbatim>\<open>dependencies\<close>, and what it returns once the stack is empty.\<close>

definition missing_error :: "string list \<Rightarrow> error" where
  "missing_error m = TaskError (''required service(s) missing: '' @ str_join '', '' m)"

definition outcome :: "deps \<Rightarrow> error + string list" where
  "outcome d = (if missing d \<noteq> [] then Inl (missing_error (missing d)) else Inr (added d))"

text \<open>
  A configuration of the two loops of \<^verbatim>\<open>dependencies\<close>: the registry and the file system,
  the loop variables, and the names of \<^verbatim>\<open>svc.requires\<close> the inner loop has still to look
  at. \<open>initial\<close> is the configuration before the first iteration.
\<close>

type_synonym config = "state \<times> deps \<times> string list"

definition initial :: "state \<Rightarrow> nat list \<Rightarrow> config" where
  "initial st ss = (st, \<lparr>todo = ss, visited = {}, added = [], missing = []\<rparr>, [])"

text \<open>
  \<open>run E targets root_svc c ans c'\<close>: started in \<open>c\<close>, the loops pass through \<open>c'\<close>, and \<open>ans\<close>
  lists the calls of \<^verbatim>\<open>resolve\<close> that have returned until then, each with the name asked
  for and the answer. One rule for each way an iteration can go: a required name is in
  the registry; it is not and \<^verbatim>\<open>resolve\<close> returns; the service popped has been visited;
  the service popped is visited now.
\<close>

inductive run :: "env \<Rightarrow> string list \<Rightarrow> nat \<Rightarrow> config \<Rightarrow> (string \<times> bool) list \<Rightarrow> config \<Rightarrow> bool"
  for E :: env and targets :: "string list" and root_svc :: nat and c :: config where
  start: "run E targets root_svc c [] c"
| known:
    "run E targets root_svc c ans (st, d, r # rs) \<Longrightarrow> map_of (services st) r \<noteq> None \<Longrightarrow>
     run E targets root_svc c ans (st, push_known st r (note_added targets r d), rs)"
| resolved:
    "run E targets root_svc c ans (st, d, r # rs) \<Longrightarrow> map_of (services st) r = None \<Longrightarrow>
     resolve E st root_svc r = Inr (ok, st') \<Longrightarrow>
     run E targets root_svc c (ans @ [(r, ok)])
       (st', push_known st' r (note_added targets r (note_missing r ok d)), rs)"
| skip:
    "run E targets root_svc c ans (st, d, []) \<Longrightarrow> todo d \<noteq> [] \<Longrightarrow> last (todo d) \<in> visited d \<Longrightarrow>
     run E targets root_svc c ans (st, d\<lparr>todo := butlast (todo d)\<rparr>, [])"
| visit:
    "run E targets root_svc c ans (st, d, []) \<Longrightarrow> todo d \<noteq> [] \<Longrightarrow> last (todo d) \<notin> visited d \<Longrightarrow>
     run E targets root_svc c ans
       (st, d\<lparr>todo := butlast (todo d), visited := insert (last (todo d)) (visited d)\<rparr>,
        service_requires (heap st ! last (todo d)))"

text \<open>The names \<^verbatim>\<open>resolve\<close> has answered false for, each once, in the order of the first such answer.\<close>

definition unresolved :: "(string \<times> bool) list \<Rightarrow> string list" where
  "unresolved ans = rev (remdups (rev (map fst (filter (\<lambda>a. \<not> snd a) ans))))"

text \<open>What the functions above compute from a configuration on.\<close>

definition rest_of_run :: "env \<Rightarrow> string list \<Rightarrow> nat \<Rightarrow> config \<Rightarrow> (error + string list) option" where
  "rest_of_run E targets root_svc c =
     (case c of (st, d, rs) \<Rightarrow>
        (case requires_loop E targets root_svc rs st d of
           Inl e \<Rightarrow> Some (Inl e)
         | Inr (st', d') \<Rightarrow> dependencies_loop E targets root_svc st' d'))"

text \<open>
  An environment in which the service has a remote but no sibling repository exists, a
  registry whose only service A requires B and D, and one where A requires the
  registered B and the unknown D and F, and B the unknown D and G.
\<close>

definition remote_env :: env where
  "remote_env = example_env\<lparr>gh_remote := (\<lambda>fsys p. Inr (Some ''https://github.com/org/A.git''))\<rparr>"

definition needy_state :: state where
  "needy_state =
     \<lparr>heap = [named_service ''A'' [''B'', ''D'', ''B'']], services = [(''A'', 0)], fs = example_world\<rparr>"

definition mixed_state :: state where
  "mixed_state =
     \<lparr>heap = [named_service ''A'' [''B'', ''D'', ''F'', ''D''], named_service ''B'' [''D'', ''G'']],
      services = [(''A'', 0), (''B'', 1)], fs = example_world\<rparr>"

text \<open>
  \<open>ended E targets root_svc c res\<close>: a run from \<open>c\<close> has come to an empty stack, where \<open>res\<close>
  is returned, or to a call of \<^verbatim>\<open>resolve\<close> that raises \<open>res\<close>.
\<close>

definition ended :: "env \<Rightarrow> string list \<Rightarrow> nat \<Rightarrow> config \<Rightarrow> error + string list \<Rightarrow> bool" where
  "ended E targets rt c res \<longleftrightarrow>
     (\<exists>ans st1 d1. run E targets rt c ans (st1, d1, []) \<and> todo d1 = [] \<and> res = outcome d1)
     \<or> (\<exists>ans st1 d1 r rs1 e. run E targets rt c ans (st1, d1, r # rs1)
           \<and> map_of (services st1) r = None \<and> resolve E st1 rt r = Inl e \<and> res = Inl e)"

text \<open>
  \<open>nothing_found E st root_svc\<close>: for no unknown name that a registered service requires
  does \<^verbatim>\<open>resolve\<close> find or fetch anything; it returns false and leaves the registry and
  the file system as they are, or it raises.
\<close>

definition nothing_found :: "env \<Rightarrow> state \<Rightarrow> nat \<Rightarrow> bool" where
  "nothing_found E st root_svc \<longleftrightarrow>
     (\<forall>s \<in> snd ` set (services st). \<forall>r \<in> set (service_requires (heap st ! s)).
        map_of (services st) r = None \<longrightarrow>
        resolve E st root_svc r = Inr (False, st) \<or> (\<exists>e. resolve E st root_svc r = Inl e))"

section \<open>Evaluating SHA-1\<close>

text \<open>
  Rewrite rules that let the simplifier run the digest on a literal input, and the test
  vector of FIPS 180 for the input \<^verbatim>\<open>abc\<close>.
\<close>

lemma foldl_upt_step: "i < j \<Longrightarrow> foldl f s [i..<j] = foldl f (f s i) [i + 1..<j]"
  by (simp add: upt_conv_Cons)

lemma foldl_upt_done: "\<not> i < j \<Longrightarrow> foldl f s [i..<j] = s"
  by simp

lemma chunks_numeral:
  "chunks (numeral k) n xs = take n xs # chunks (pred_numeral k) n (drop n xs)"
  by (simp add: numeral_eq_Suc)

lemma chunks_1: "chunks 1 n xs = [take n xs]"
  using chunks.simps(2) [of 0 n xs] by simp

lemma be_bytes_numeral:
  "be_bytes (numeral k) v = be_bytes (pred_numeral k) (v div 256) @ [v mod 256]"
  by (metis be_bytes.simps(2) numeral_eq_Suc)

lemma be_bytes_1: "be_bytes 1 v = [v mod 256]"
  using be_bytes.simps(2) [of 0 v] by simp

lemma replicate_numeral_Cons: "replicate (numeral k) x = x # replicate (pred_numeral k) x"
  by (simp add: numeral_eq_Suc)

lemmas sha1_eval =
  chunks_numeral chunks_1 be_bytes_numeral be_bytes_1 replicate_numeral_Cons foldl_upt_step foldl_upt_done
  sha1_hex_def sha1_def sha1_blocks_def sha1_pad_def sha1_block_def sha1_init_def
  be_word_def rotl1_def rotl5_def rotl30_def add32_def sha1_f_def sha1_k_def next_word_def
  hex_word_def hex_digit_def NUL_def

lemma sha1_hex_abc: "sha1_hex ''abc'' = ''a9993e364706816aba3e25717850c26c9cd0d89d''"
  by (simp add: sha1_eval)

lemma sha1_hex_a_b:
  "sha1_hex (''files 2'' @ [NUL] @ ''file a'' @ [NUL] @ ''x'' @ ''file b'' @ [NUL] @ ''y'') =
     ''be469dd6613197a6f44078e9afe731bc27498242''"
  by (simp add: sha1_eval)

lemma sha1_hex_b_a:
  "sha1_hex (''files 2'' @ [NUL] @ ''file b'' @ [NUL] @ ''y'' @ ''file a'' @ [NUL] @ ''x'') =
     ''ccee785649a2b86fc449f77e622bbf3f4231b38f''"
  by (simp add: sha1_eval)


lemma sha1_hex_a:
  "sha1_hex (''files 1'' @ [NUL] @ ''file a'' @ [NUL] @ ''x'') =
     ''86bb395bb5a8dfed4bd754b91af4d747b7abf1fd''"
  by (simp add: sha1_eval)

section \<open>Properties of content hashing\<close>

lemma shafiles_loop_ok:
  "only_missing rd root fl \<Longrightarrow>
   shafiles_loop rd root fl acc = Inr (acc @ concat (map (file_record rd root) fl))"
proof (induction fl arbitrary: acc)
  case Nil
  show ?case by simp
next
  case (Cons name fl)
  from Cons.prems have rest: "only_missing rd root fl"
    by (simp add: only_missing_def)
  show ?case
  proof (cases "rd (path_join root name)")
    case (Content c)
    then show ?thesis
      by (simp add: Cons.IH [OF rest] file_record_def)
  next
    case (ReadError e)
    with Cons.prems have "e = ENOENT"
      by (simp add: only_missing_def)
    with ReadError show ?thesis
      by (simp add: Cons.IH [OF rest] file_record_def)
  qed
qed

lemma shafiles_loop_fail:
  "\<not> only_missing rd root fl \<Longrightarrow>
   \<exists>e. e \<noteq> ENOENT \<and> shafiles_loop rd root fl acc = Inl (IOError e)"
proof (induction fl arbitrary: acc)
  case Nil
  then show ?case by (simp add: only_missing_def)
next
  case (Cons name fl)
  show ?case
  proof (cases "rd (path_join root name)")
    case (Content c)
    with Cons.prems have "\<not> only_missing rd root fl"
      by (auto simp: only_missing_def)
    from Cons.IH [OF this] Content show ?thesis by simp
  next
    case (ReadError e)
    show ?thesis
    proof (cases "e = ENOENT")
      case True
      with ReadError Cons.prems have "\<not> only_missing rd root fl"
        by (auto simp: only_missing_def)
      from Cons.IH [OF this] ReadError True show ?thesis by simp
    next
      case False
      with ReadError show ?thesis by simp
    qed
  qed
qed

lemma shafiles_data_ok:
  "only_missing rd root fl \<Longrightarrow>
   shafiles_data rd root fl = Inr (hashed_bytes rd root fl)"
  by (simp add: shafiles_data_def shafiles_loop_ok hashed_bytes_def)

text \<open>
  C7. A listed file whose read fails with \<open>ENOENT\<close> is skipped (it contributes its header
  and no content) and hashing completes with a digest; if some listed file fails with any
  other errno, \<^verbatim>\<open>shafiles\<close> raises an \<^verbatim>\<open>IOError\<close> whose errno is not \<open>ENOENT\<close>.
\<close>

theorem shafiles_skips_missing_propagates_other:
  "(only_missing rd root fl \<longrightarrow>
      shafiles rd root fl = Inr (sha1_hex (hashed_bytes rd root fl)))
   \<and> (\<not> only_missing rd root fl \<longrightarrow>
        (\<exists>e. e \<noteq> ENOENT \<and> shafiles rd root fl = Inl (IOError e)))"
proof (intro conjI impI)
  assume "only_missing rd root fl"
  then show "shafiles rd root fl = Inr (sha1_hex (hashed_bytes rd root fl))"
    by (simp add: shafiles_def shafiles_data_ok)
next
  assume "\<not> only_missing rd root fl"
  from shafiles_loop_fail [OF this]
  obtain e where "e \<noteq> ENOENT"
    and "shafiles_loop rd root fl (''files '' @ str_nat (length fl) @ [NUL]) = Inl (IOError e)"
    by blast
  then show "\<exists>e. e \<noteq> ENOENT \<and> shafiles rd root fl = Inl (IOError e)"
    by (auto simp: shafiles_def shafiles_data_def)
qed

lemma example_disk_reads:
  "example_disk (path_join ''/svc'' ''a'') = Content ''x''"
  "example_disk (path_join ''/svc'' ''b'') = Content ''y''"
  "example_disk (path_join ''/svc'' ''gone'') = ReadError ENOENT"
  "example_disk (path_join ''/svc'' ''locked'') = ReadError 13"
  by (simp_all add: example_disk_def path_join_def)

theorem shafiles_skips_missing_propagates_other_witness:
  "only_missing example_disk ''/svc'' [''a'', ''gone'']
   \<and> shafiles example_disk ''/svc'' [''a'', ''gone''] =
       Inr (sha1_hex (''files 2'' @ [NUL] @ ''file a'' @ [NUL] @ ''x'' @ ''file gone'' @ [NUL]))
   \<and> \<not> only_missing example_disk ''/svc'' [''a'', ''locked'']
   \<and> (\<exists>e. e \<noteq> ENOENT \<and> shafiles example_disk ''/svc'' [''a'', ''locked''] = Inl (IOError e))"
proof -
  have ok: "only_missing example_disk ''/svc'' [''a'', ''gone'']"
    by (simp add: only_missing_def example_disk_reads)
  have bad: "\<not> only_missing example_disk ''/svc'' [''a'', ''locked'']"
    by (simp add: only_missing_def example_disk_reads ENOENT_def)
  have two: "str_nat (Suc (Suc 0)) = ''2''"
    by (simp add: str_nat.simps digit_char_def)
  from ok bad two
    shafiles_skips_missing_propagates_other [of example_disk "''/svc''" "[''a'', ''gone'']"]
    shafiles_skips_missing_propagates_other [of example_disk "''/svc''" "[''a'', ''locked'']"]
  show ?thesis
    by (simp add: hashed_bytes_def file_record_def example_disk_reads)
qed

subsection \<open>The count prefix determines the number of listed fl\<close>









lemma shafiles_loop_cong:
  "\<forall>n \<in> set fl. rd (path_join root n) = rd' (path_join root n) \<Longrightarrow>
   shafiles_loop rd root fl acc = shafiles_loop rd' root fl acc"
  by (induction fl arbitrary: acc) (simp_all split: read_result.splits)





subsection \<open>The hash follows the order of the file list\<close>

text \<open>
  C3 (as amended). The content hash is a function of the file list as an ordered sequence
  and of what the listed paths read as: hashing the same list, in the same order, on two
  disks that agree on every listed path gives the same result. Nothing is promised for a
  permuted list.
\<close>

theorem shafiles_same_list_same_contents:
  assumes "\<forall>n \<in> set fl. rd (path_join root n) = rd' (path_join root n)"
  shows "shafiles rd root fl = shafiles rd' root fl"
  using shafiles_loop_cong [OF assms] by (simp add: shafiles_def shafiles_data_def)

theorem shafiles_same_list_same_contents_witness:
  "example_disk (path_join ''/svc'' ''a'') =
     (example_disk(''/svc/c'' := Content ''z'')) (path_join ''/svc'' ''a'')
   \<and> example_disk (path_join ''/svc'' ''b'') =
     (example_disk(''/svc/c'' := Content ''z'')) (path_join ''/svc'' ''b'')
   \<and> shafiles example_disk ''/svc'' [''a'', ''b''] =
       shafiles (example_disk(''/svc/c'' := Content ''z'')) ''/svc'' [''a'', ''b'']"
proof -
  have a: "example_disk (path_join ''/svc'' ''a'') =
      (example_disk(''/svc/c'' := Content ''z'')) (path_join ''/svc'' ''a'')"
    by (simp add: path_join_def)
  have b: "example_disk (path_join ''/svc'' ''b'') =
      (example_disk(''/svc/c'' := Content ''z'')) (path_join ''/svc'' ''b'')"
    by (simp add: path_join_def)
  have agree: "\<forall>n \<in> set [''a'', ''b''].
      example_disk (path_join ''/svc'' n) = (example_disk(''/svc/c'' := Content ''z'')) (path_join ''/svc'' n)"
    using a b by simp
  from a b shafiles_same_list_same_contents [OF agree] show ?thesis by blast
qed

text \<open>
  The claim as stated fails: the lists \<^verbatim>\<open>[a, b]\<close> and \<^verbatim>\<open>[b, a]\<close> name the same fl with the
  same contents, and their versions differ.
\<close>

theorem shafiles_permutation_counterexample:
  "mset [''a'', ''b''] = mset [''b'', ''a'']
   \<and> shafiles example_disk ''/svc'' [''a'', ''b''] = Inr ''be469dd6613197a6f44078e9afe731bc27498242''
   \<and> shafiles example_disk ''/svc'' [''b'', ''a''] = Inr ''ccee785649a2b86fc449f77e622bbf3f4231b38f''
   \<and> shafiles example_disk ''/svc'' [''a'', ''b''] \<noteq> shafiles example_disk ''/svc'' [''b'', ''a'']"
proof -
  have ok: "only_missing example_disk ''/svc'' [''a'', ''b'']"
    "only_missing example_disk ''/svc'' [''b'', ''a'']"
    by (simp_all add: only_missing_def example_disk_reads)
  have two: "str_nat (Suc (Suc 0)) = ''2''"
    by (simp add: str_nat.simps digit_char_def)
  have ab: "shafiles example_disk ''/svc'' [''a'', ''b''] = Inr ''be469dd6613197a6f44078e9afe731bc27498242''"
    using sha1_hex_a_b
    by (simp add: shafiles_def shafiles_data_ok [OF ok(1)] hashed_bytes_def file_record_def
        example_disk_reads two)
  have ba: "shafiles example_disk ''/svc'' [''b'', ''a''] = Inr ''ccee785649a2b86fc449f77e622bbf3f4231b38f''"
    using sha1_hex_b_a
    by (simp add: shafiles_def shafiles_data_ok [OF ok(2)] hashed_bytes_def file_record_def
        example_disk_reads two)
  show ?thesis
    unfolding ab ba by simp
qed

section \<open>Versions of services\<close>

lemma strip_prefix:
  "\<exists>t. dropWhile is_space s = strip s @ t"
proof -
  have "rev (dropWhile is_space (rev u)) @ rev (takeWhile is_space (rev u)) = u" for u
    by (metis rev_append rev_rev_ident takeWhile_dropWhile_id)
  then show ?thesis
    unfolding strip_def by metis
qed

lemma strip_starts_with_field:
  assumes "strip s \<noteq> []"
  shows "\<not> is_space (hd (strip s))"
proof -
  obtain t where t: "dropWhile is_space s = strip s @ t"
    using strip_prefix by blast
  with assms have ne: "dropWhile is_space s \<noteq> []" by auto
  then have "\<not> is_space (hd (dropWhile is_space s))"
    by (rule hd_dropWhile)
  with t assms show ?thesis by simp
qed

lemma first_field_strip:
  assumes "strip s \<noteq> []"
  shows "first_field (strip s) = Inr (takeWhile (\<lambda>c. \<not> is_space c) (strip s))"
proof -
  from assms obtain c cs where cs: "strip s = c # cs"
    by (cases "strip s") auto
  with strip_starts_with_field [OF assms] have "\<not> is_space c" by simp
  with cs show ?thesis
    by (simp add: first_field_def)
qed

lemma get_version_not_git:
  "is_git ex path = Inr False \<Longrightarrow> get_version ex shl path dirty = Inr dirty"
  by (simp add: get_version_def)

lemma get_version_dirty:
  "is_git ex path = Inr True \<Longrightarrow> shl git_diff_args path (Some [0, 1]) = Inr r \<Longrightarrow> code r \<noteq> 0 \<Longrightarrow>
   get_version ex shl path dirty = Inr dirty"
  by (simp add: get_version_def)

lemma get_version_no_commit:
  "is_git ex path = Inr True \<Longrightarrow> shl git_diff_args path (Some [0, 1]) = Inr r \<Longrightarrow> code r = 0 \<Longrightarrow>
   shl git_log_args path None = Inr l \<Longrightarrow> strip (sh_output l) = [] \<Longrightarrow>
   get_version ex shl path dirty = Inr dirty"
  by (simp add: get_version_def)

lemma get_version_clean:
  "is_git ex path = Inr True \<Longrightarrow> shl git_diff_args path (Some [0, 1]) = Inr r \<Longrightarrow> code r = 0 \<Longrightarrow>
   shl git_log_args path None = Inr l \<Longrightarrow> strip (sh_output l) \<noteq> [] \<Longrightarrow>
   get_version ex shl path dirty =
     Inr (takeWhile (\<lambda>c. \<not> is_space c) (strip (sh_output l)) @ ''.git'')"
  by (simp add: get_version_def first_field_strip)

text \<open>
  C6 (as amended). For a service whose version is not cached yet, the content hash is
  computed first. If it raises, \<^verbatim>\<open>version\<close> raises the same error, whatever the state of
  the working tree. If it yields a digest, then: when the root is inside a git working
  tree, \<^verbatim>\<open>git diff\<close> exits with 0 and \<^verbatim>\<open>git log\<close> prints a non-blank line, the version is the
  first field of that line followed by \<^verbatim>\<open>.git\<close>; when the root is in no git working tree, or
  \<^verbatim>\<open>git diff\<close> exits with another code, or \<^verbatim>\<open>git log\<close> prints nothing, the version is the
  digest followed by \<^verbatim>\<open>.sha\<close>.
\<close>

theorem service_version_cases:
  assumes fresh: "version_cache svc = None"
  shows "(\<forall>e. shafiles (disk_of fsys) (service_root svc) (files svc) = Inl e \<longrightarrow>
            fst (service_version E fsys svc) = Inl e)
    \<and> (\<forall>h r l. shafiles (disk_of fsys) (service_root svc) (files svc) = Inr h
          \<and> is_git (path_exists fsys) (service_root svc) = Inr True
          \<and> sh E git_diff_args (service_root svc) (Some [0, 1]) = Inr r \<and> code r = 0
          \<and> sh E git_log_args (service_root svc) None = Inr l \<and> strip (sh_output l) \<noteq> []
        \<longrightarrow> fst (service_version E fsys svc) =
              Inr (takeWhile (\<lambda>c. \<not> is_space c) (strip (sh_output l)) @ ''.git''))
    \<and> (\<forall>h r l. shafiles (disk_of fsys) (service_root svc) (files svc) = Inr h
          \<and> (is_git (path_exists fsys) (service_root svc) = Inr False
              \<or> is_git (path_exists fsys) (service_root svc) = Inr True
                 \<and> sh E git_diff_args (service_root svc) (Some [0, 1]) = Inr r
                 \<and> (code r \<noteq> 0
                      \<or> code r = 0 \<and> sh E git_log_args (service_root svc) None = Inr l
                         \<and> strip (sh_output l) = []))
        \<longrightarrow> fst (service_version E fsys svc) = Inr (h @ ''.sha''))"
proof (intro conjI allI impI)
  fix e
  assume "shafiles (disk_of fsys) (service_root svc) (files svc) = Inl e"
  with fresh show "fst (service_version E fsys svc) = Inl e"
    by (simp add: service_version_def)
next
  fix h r l
  assume a: "shafiles (disk_of fsys) (service_root svc) (files svc) = Inr h
          \<and> is_git (path_exists fsys) (service_root svc) = Inr True
          \<and> sh E git_diff_args (service_root svc) (Some [0, 1]) = Inr r \<and> code r = 0
          \<and> sh E git_log_args (service_root svc) None = Inr l \<and> strip (sh_output l) \<noteq> []"
  then have "get_version (path_exists fsys) (sh E) (service_root svc) (h @ ''.sha'') =
      Inr (takeWhile (\<lambda>c. \<not> is_space c) (strip (sh_output l)) @ ''.git'')"
    by (intro get_version_clean) auto
  with a fresh show "fst (service_version E fsys svc) =
      Inr (takeWhile (\<lambda>c. \<not> is_space c) (strip (sh_output l)) @ ''.git'')"
    by (simp add: service_version_def)
next
  fix h r l
  assume a: "shafiles (disk_of fsys) (service_root svc) (files svc) = Inr h
          \<and> (is_git (path_exists fsys) (service_root svc) = Inr False
              \<or> is_git (path_exists fsys) (service_root svc) = Inr True
                 \<and> sh E git_diff_args (service_root svc) (Some [0, 1]) = Inr r
                 \<and> (code r \<noteq> 0
                      \<or> code r = 0 \<and> sh E git_log_args (service_root svc) None = Inr l
                         \<and> strip (sh_output l) = []))"
  then have "get_version (path_exists fsys) (sh E) (service_root svc) (h @ ''.sha'') = Inr (h @ ''.sha'')"
    using get_version_not_git get_version_dirty get_version_no_commit by blast
  with a fresh show "fst (service_version E fsys svc) = Inr (h @ ''.sha'')"
    by (simp add: service_version_def)
qed

lemma example_is_git: "is_git (path_exists example_fs) ''/svc'' = Inr True"
  by (simp add: is_git.simps [of _ "''/svc''"] path_exists_def example_fs_def path_join_def)

lemma example_service_root: "service_root (example_service fl) = ''/svc''"
  by (simp add: service_root_def example_service_def dirname_def)

lemma example_service_fields:
  "files (example_service fl) = fl" "version_cache (example_service fl) = None"
  by (simp_all add: example_service_def)

lemma example_disk_of:
  "disk_of example_fs (path_join ''/svc'' ''a'') = Content ''x''"
  "disk_of example_fs (path_join ''/svc'' ''locked'') = ReadError 13"
  by (simp_all add: disk_of_def open_read_def example_fs_def example_disk_def path_join_def ENOENT_def)

lemma example_hash_a:
  "shafiles (disk_of example_fs) ''/svc'' [''a''] = Inr (sha1_hex (''files 1'' @ [NUL] @ ''file a'' @ [NUL] @ ''x''))"
proof -
  have "only_missing (disk_of example_fs) ''/svc'' [''a'']"
    by (simp add: only_missing_def example_disk_of)
  moreover have "str_nat (Suc 0) = ''1''"
    by (simp add: str_nat.simps digit_char_def)
  ultimately show ?thesis
    by (simp add: shafiles_def shafiles_data_ok hashed_bytes_def file_record_def example_disk_of)
qed

lemma example_hash_locked:
  "shafiles (disk_of example_fs) ''/svc'' [''a'', ''locked''] = Inl (IOError 13)"
  by (simp add: shafiles_def shafiles_data_def example_disk_of ENOENT_def)

text \<open>
  The claim as stated fails: in a clean working tree with a commit touching the path, a
  listed file that cannot be read makes \<^verbatim>\<open>version\<close> raise instead of returning the
  commit's version.
\<close>

theorem service_version_clean_tree_counterexample:
  "is_git (path_exists example_fs) (service_root (example_service [''a'', ''locked''])) = Inr True
   \<and> sh example_env git_diff_args (service_root (example_service [''a'', ''locked''])) (Some [0, 1])
       = Inr \<lparr>code = 0, sh_output = []\<rparr>
   \<and> sh example_env git_log_args (service_root (example_service [''a'', ''locked''])) None
       = Inr \<lparr>code = 0, sh_output = example_log\<rparr>
   \<and> strip example_log = ''9fceb02d0ae598e95dc970b74767f19372d61af8 add a''
   \<and> fst (service_version example_env example_fs (example_service [''a'', ''locked'']))
       = Inl (IOError 13)"
proof -
  have "fst (service_version example_env example_fs (example_service [''a'', ''locked''])) = Inl (IOError 13)"
    by (simp add: service_version_def example_service_root example_service_fields
        example_hash_locked)
  moreover have "strip example_log = ''9fceb02d0ae598e95dc970b74767f19372d61af8 add a''"
    by (simp add: strip_def example_log_def is_space_def)
  moreover have "git_log_args \<noteq> git_diff_args"
    by (simp add: git_log_args_def git_diff_args_def)
  ultimately show ?thesis
    by (simp add: example_service_root example_is_git example_env_def example_sh_def)
qed


lemma example_sh_answers:
  "sh example_env git_diff_args d x = Inr \<lparr>code = 0, sh_output = []\<rparr>"
  "sh example_env git_log_args d x = Inr \<lparr>code = 0, sh_output = example_log\<rparr>"
  "sh (example_env\<lparr>sh := example_sh 1 []\<rparr>) git_diff_args d x = Inr \<lparr>code = 1, sh_output = []\<rparr>"
  by (simp_all add: example_env_def example_sh_def git_log_args_def git_diff_args_def)

lemma example_log_line:
  "strip example_log = ''9fceb02d0ae598e95dc970b74767f19372d61af8 add a''"
  by (simp add: strip_def example_log_def is_space_def)

theorem service_version_cases_witness:
  "version_cache (example_service [''a'']) = None
   \<and> fst (service_version example_env example_fs (example_service [''a'']))
       = Inr ''9fceb02d0ae598e95dc970b74767f19372d61af8.git''
   \<and> fst (service_version (example_env\<lparr>sh := example_sh 1 []\<rparr>) example_fs (example_service [''a'']))
       = Inr ''86bb395bb5a8dfed4bd754b91af4d747b7abf1fd.sha''
   \<and> version_cache (example_service [''a'', ''locked'']) = None
   \<and> fst (service_version example_env example_fs (example_service [''a'', ''locked'']))
       = Inl (IOError 13)"
proof -
  have fresh_a: "version_cache (example_service [''a'']) = None"
    and fresh_l: "version_cache (example_service [''a'', ''locked'']) = None"
    by (rule example_service_fields)+
  have hash: "shafiles (disk_of example_fs) (service_root (example_service [''a'']))
      (files (example_service [''a''])) = Inr ''86bb395bb5a8dfed4bd754b91af4d747b7abf1fd''"
    using example_hash_a sha1_hex_a by (simp add: example_service_root example_service_fields)
  have git: "is_git (path_exists example_fs) (service_root (example_service [''a''])) = Inr True"
    by (simp add: example_service_root example_is_git)
  have "fst (service_version example_env example_fs (example_service [''a''])) =
      Inr (takeWhile (\<lambda>c. \<not> is_space c) (strip (sh_output \<lparr>code = 0, sh_output = example_log\<rparr>)) @ ''.git'')"
    by (rule service_version_cases [OF fresh_a, THEN conjunct2, THEN conjunct1, rule_format,
          of example_fs "''86bb395bb5a8dfed4bd754b91af4d747b7abf1fd''" example_env
             "\<lparr>code = 0, sh_output = []\<rparr>"])
       (simp add: hash git example_sh_answers example_log_line)
  then have clean: "fst (service_version example_env example_fs (example_service [''a'']))
       = Inr ''9fceb02d0ae598e95dc970b74767f19372d61af8.git''"
    by (simp add: example_log_line is_space_def)
  have "fst (service_version (example_env\<lparr>sh := example_sh 1 []\<rparr>) example_fs (example_service [''a'']))
       = Inr (''86bb395bb5a8dfed4bd754b91af4d747b7abf1fd'' @ ''.sha'')"
    by (rule service_version_cases [OF fresh_a, THEN conjunct2, THEN conjunct2, rule_format,
          of example_fs _ "example_env\<lparr>sh := example_sh 1 []\<rparr>"
             "\<lparr>code = 1, sh_output = []\<rparr>" "\<lparr>code = 0, sh_output = []\<rparr>"])
       (simp add: hash git example_sh_def)
  then have dirty: "fst (service_version (example_env\<lparr>sh := example_sh 1 []\<rparr>) example_fs (example_service [''a'']))
       = Inr ''86bb395bb5a8dfed4bd754b91af4d747b7abf1fd.sha''"
    by simp
  have "shafiles (disk_of example_fs) (service_root (example_service [''a'', ''locked'']))
      (files (example_service [''a'', ''locked''])) = Inl (IOError 13)"
    using example_hash_locked by (simp add: example_service_root example_service_fields)
  then have failing: "fst (service_version example_env example_fs (example_service [''a'', ''locked'']))
       = Inl (IOError 13)"
    by (rule service_version_cases [OF fresh_l, THEN conjunct1, rule_format])
  from fresh_a fresh_l clean dirty failing show ?thesis by simp
qed

section \<open>Descriptors\<close>



section \<open>Resolving dependencies\<close>

lemma lookup_all_Inr_iff:
  "(\<exists>ss. lookup_all reg ts = Inr ss) \<longleftrightarrow> (\<forall>t \<in> set ts. map_of reg t \<noteq> None)"
  by (induction ts) (auto split: option.splits sum.splits)

lemma lookup_all_KeyError:
  "lookup_all reg ts = Inl e \<Longrightarrow> \<exists>k \<in> set ts. e = KeyError k \<and> map_of reg k = None"
  by (induction ts arbitrary: e) (auto split: option.splits sum.splits)

lemma lookup_all_length: "lookup_all reg ts = Inr ss \<Longrightarrow> length ss = length ts"
  by (induction ts arbitrary: ss) (auto split: option.splits sum.splits)

text \<open>
  C10. \<^verbatim>\<open>dependencies\<close> fails before the loop starts when its precondition does not hold:
  with no targets it raises \<^verbatim>\<open>IndexError\<close>, and with a target that is not in the registry it
  raises \<^verbatim>\<open>KeyError\<close> for such a target. Neither outcome depends on the environment, which
  is never consulted, and in neither case is a list returned.
\<close>

theorem dependencies_precondition:
  "dependencies E st [] = Some (Inl IndexError)
   \<and> ((\<exists>t \<in> set targets. map_of (services st) t = None) \<longrightarrow>
        (\<exists>k \<in> set targets. map_of (services st) k = None
           \<and> (\<forall>E'. dependencies E' st targets = Some (Inl (KeyError k)))))"
proof (intro conjI impI)
  show "dependencies E st [] = Some (Inl IndexError)"
    by (simp add: dependencies_def)
next
  assume "\<exists>t \<in> set targets. map_of (services st) t = None"
  then have "\<not> (\<exists>ss. lookup_all (services st) targets = Inr ss)"
    by (simp add: lookup_all_Inr_iff)
  then obtain e where e: "lookup_all (services st) targets = Inl e"
    by (cases "lookup_all (services st) targets") auto
  from lookup_all_KeyError [OF e] obtain k where
    k: "k \<in> set targets" "e = KeyError k" "map_of (services st) k = None"
    by blast
  with e have "dependencies E' st targets = Some (Inl (KeyError k))" for E'
    by (simp add: dependencies_def)
  with k show "\<exists>k \<in> set targets. map_of (services st) k = None
      \<and> (\<forall>E'. dependencies E' st targets = Some (Inl (KeyError k)))"
    by blast
qed

theorem dependencies_precondition_witness:
  "dependencies example_env example_state [] = Some (Inl IndexError)
   \<and> ''ghost'' \<in> set [''ghost'']
   \<and> map_of (services example_state) ''ghost'' = None
   \<and> dependencies example_env example_state [''ghost''] = Some (Inl (KeyError ''ghost''))"
proof -
  have none: "map_of (services example_state) ''ghost'' = None"
    by (simp add: example_state_def)
  then have "\<exists>t \<in> set [''ghost'']. map_of (services example_state) t = None"
    by simp
  with dependencies_precondition [of example_env example_state "[''ghost'']"]
  have "dependencies example_env example_state [] = Some (Inl IndexError)"
    and "\<exists>k \<in> set [''ghost'']. \<forall>E'. dependencies E' example_state [''ghost''] = Some (Inl (KeyError k))"
    by blast+
  with none show ?thesis by simp
qed

subsection \<open>Steps of the loop\<close>

lemma loop_done:
  "todo d = [] \<Longrightarrow>
   dependencies_loop E targets r st d =
     Some (if missing d \<noteq> []
           then Inl (TaskError (''required service(s) missing: '' @ str_join '', '' (missing d)))
           else Inr (added d))"
  by (subst dependencies_loop.simps) simp

lemma loop_skip:
  "todo d \<noteq> [] \<Longrightarrow> last (todo d) \<in> visited d \<Longrightarrow>
   dependencies_loop E targets r st d =
     dependencies_loop E targets r st (d\<lparr>todo := butlast (todo d)\<rparr>)"
  by (subst dependencies_loop.simps) simp

lemma loop_visit:
  "todo d \<noteq> [] \<Longrightarrow> last (todo d) \<notin> visited d \<Longrightarrow>
   requires_loop E targets r (service_requires (heap st ! last (todo d))) st
     (d\<lparr>todo := butlast (todo d), visited := insert (last (todo d)) (visited d)\<rparr>) = Inr (st', d') \<Longrightarrow>
   dependencies_loop E targets r st d = dependencies_loop E targets r st' d'"
  by (subst dependencies_loop.simps) simp

lemma loop_raise:
  "todo d \<noteq> [] \<Longrightarrow> last (todo d) \<notin> visited d \<Longrightarrow>
   requires_loop E targets r (service_requires (heap st ! last (todo d))) st
     (d\<lparr>todo := butlast (todo d), visited := insert (last (todo d)) (visited d)\<rparr>) = Inl e \<Longrightarrow>
   dependencies_loop E targets r st d = Some (Inl e)"
  by (subst dependencies_loop.simps) simp

text \<open>
  C1. In a registry where A requires B, B requires C and C requires nothing,
  \<^verbatim>\<open>dependencies(["A"])\<close> returns the list \<^verbatim>\<open>[B, C]\<close>: both names are present, none twice,
  and the target is not among them. The environment is never consulted.
\<close>

theorem dependencies_chain:
  assumes A: "map_of (services st) a = Some ra" "service_requires (heap st ! ra) = [b]"
    and B: "map_of (services st) b = Some rb" "service_requires (heap st ! rb) = [c]"
    and C: "map_of (services st) c = Some rc" "service_requires (heap st ! rc) = []"
  shows "dependencies E st [a] = Some (Inr [b, c])
    \<and> b \<in> set [b, c] \<and> c \<in> set [b, c] \<and> distinct [b, c] \<and> a \<notin> set [b, c]"
proof -
  from A B C have names: "a \<noteq> b" "b \<noteq> c" "a \<noteq> c"
    by auto
  with A B C have refs: "ra \<noteq> rb" "rb \<noteq> rc" "ra \<noteq> rc"
    by auto
  let ?d0 = "\<lparr>todo = [ra], visited = {}, added = [], missing = []\<rparr>"
  let ?d1 = "\<lparr>todo = [rb], visited = {ra}, added = [b], missing = []\<rparr>"
  let ?d2 = "\<lparr>todo = [rc], visited = {rb, ra}, added = [b, c], missing = []\<rparr>"
  let ?d3 = "\<lparr>todo = [], visited = {rc, rb, ra}, added = [b, c], missing = []\<rparr>"
  have "dependencies E st [a] = dependencies_loop E [a] ra st ?d0"
    using A by (simp add: dependencies_def)
  also have "\<dots> = dependencies_loop E [a] ra st ?d1"
    using A B names
    by (intro loop_visit) (simp_all add: push_known_def note_added_def)
  also have "\<dots> = dependencies_loop E [a] ra st ?d2"
    using B C names refs
    by (intro loop_visit) (simp_all add: push_known_def note_added_def)
  also have "\<dots> = dependencies_loop E [a] ra st ?d3"
    using C names refs
    by (intro loop_visit) (simp_all add: insert_commute)
  also have "\<dots> = Some (Inr [b, c])"
    by (simp add: loop_done)
  finally show ?thesis
    using names by simp
qed

lemma named_service_requires: "service_requires (named_service n reqs) = reqs"
  by (simp add: service_requires_def named_service_def)

theorem dependencies_chain_witness:
  "map_of (services chain_state) ''A'' = Some 0
   \<and> service_requires (heap chain_state ! 0) = [''B'']
   \<and> map_of (services chain_state) ''B'' = Some 1
   \<and> service_requires (heap chain_state ! 1) = [''C'']
   \<and> map_of (services chain_state) ''C'' = Some 2
   \<and> service_requires (heap chain_state ! 2) = []
   \<and> dependencies example_env chain_state [''A''] = Some (Inr [''B'', ''C''])"
proof -
  have A: "map_of (services chain_state) ''A'' = Some 0"
    "service_requires (heap chain_state ! 0) = [''B'']"
    and B: "map_of (services chain_state) ''B'' = Some 1"
    "service_requires (heap chain_state ! 1) = [''C'']"
    and C: "map_of (services chain_state) ''C'' = Some 2"
    "service_requires (heap chain_state ! 2) = []"
    by (simp_all add: chain_state_def named_service_requires)
  from dependencies_chain [OF A B C, of example_env] A B C
  show ?thesis by simp
qed

section \<open>Missing dependencies\<close>

subsection \<open>The names collected\<close>

lemma unresolved_Nil [simp]: "unresolved [] = []"
  by (simp add: unresolved_def)

lemma set_unresolved: "set (unresolved ans) = {r. (r, False) \<in> set ans}"
  by (force simp: unresolved_def)

lemma distinct_unresolved: "distinct (unresolved ans)"
  by (simp add: unresolved_def)

lemma unresolved_snoc:
  "unresolved (ans @ [(r, ok)]) =
     (if \<not> ok \<and> r \<notin> set (unresolved ans) then unresolved ans @ [r] else unresolved ans)"
  by (auto simp: unresolved_def)

lemma missing_step:
  "missing (note_missing r ok d) =
     (if \<not> ok \<and> r \<notin> set (missing d) then missing d @ [r] else missing d)"
  by (simp add: note_missing_def)

lemma added_step:
  "added (push_known st r (note_added targets r d)) =
     (if r \<notin> set targets \<and> r \<notin> set (added d) then added d @ [r] else added d)"
  by (simp add: push_known_def note_added_def split: option.splits)

lemma added_note_missing [simp]: "added (note_missing r ok d) = added d"
  by (simp add: note_missing_def)

lemma missing_known [simp]: "missing (push_known st r (note_added targets r d)) = missing d"
  by (simp add: push_known_def note_added_def split: option.splits)

lemma run_collects:
  assumes "run E targets rt c ans c'" "missing (fst (snd c)) = []" "added (fst (snd c)) = []"
  shows "missing (fst (snd c')) = unresolved ans \<and> distinct (added (fst (snd c')))
    \<and> set (added (fst (snd c'))) \<inter> set targets = {}"
  using assms
proof (induction rule: run.induct)
  case start
  then show ?case by simp
next
  case (known ans st d r rs)
  then show ?case by (auto simp: added_step)
next
  case (resolved ans st d r rs ok st')
  then show ?case by (auto simp: added_step missing_step unresolved_snoc)
next
  case (skip ans st d)
  then show ?case by simp
next
  case (visit ans st d)
  then show ?case by simp
qed

subsection \<open>Runs and the functions\<close>

lemma run_rest:
  "run E targets rt c ans c' \<Longrightarrow> rest_of_run E targets rt c' = rest_of_run E targets rt c"
proof (induction rule: run.induct)
  case start
  show ?case by simp
next
  case (known ans st d r rs)
  then show ?case by (auto simp: rest_of_run_def)
next
  case (resolved ans st d r rs ok st')
  then show ?case by (simp add: rest_of_run_def)
next
  case (skip ans st d)
  then show ?case by (simp add: rest_of_run_def loop_skip)
next
  case (visit ans st d)
  have "rest_of_run E targets rt
      (st, d\<lparr>todo := butlast (todo d), visited := insert (last (todo d)) (visited d)\<rparr>,
       service_requires (heap st ! last (todo d))) = dependencies_loop E targets rt st d"
    using visit.hyps(2,3) by (subst dependencies_loop.simps) (simp add: rest_of_run_def)
  with visit.IH show ?case by (simp add: rest_of_run_def)
qed

lemma rest_initial:
  "lookup_all (services st) targets = Inr (s # ss) \<Longrightarrow>
   rest_of_run E targets s (initial st (s # ss)) = dependencies E st targets"
  by (simp add: rest_of_run_def initial_def dependencies_def)

lemma rest_drained:
  "todo d = [] \<Longrightarrow> rest_of_run E targets rt (st, d, []) = Some (outcome d)"
  by (simp add: rest_of_run_def loop_done outcome_def missing_error_def)

lemma rest_raise:
  "map_of (services st) r = None \<Longrightarrow> resolve E st rt r = Inl e \<Longrightarrow>
   rest_of_run E targets rt (st, d, r # rs) = Some (Inl e)"
  by (simp add: rest_of_run_def)

lemma requires_loop_run:
  assumes "run E targets rt c ans (st, d, rs)"
  shows "(case requires_loop E targets rt rs st d of
            Inr (st', d') \<Rightarrow> \<exists>ans'. run E targets rt c ans' (st', d', [])
          | Inl e \<Rightarrow> ended E targets rt c (Inl e))"
  using assms
proof (induction rs arbitrary: st d ans)
  case Nil
  then show ?case by auto
next
  case (Cons r rs)
  show ?case
  proof (cases "map_of (services st) r = None")
    case True
    show ?thesis
    proof (cases "resolve E st rt r")
      case (Inl e)
      with True Cons.prems have "ended E targets rt c (Inl e)"
        unfolding ended_def by blast
      with True Inl show ?thesis by simp
    next
      case (Inr p)
      obtain ok st' where p: "p = (ok, st')" by (cases p)
      from run.resolved [OF Cons.prems True Inr [unfolded p]]
      have "run E targets rt c (ans @ [(r, ok)])
          (st', push_known st' r (note_added targets r (note_missing r ok d)), rs)" .
      from Cons.IH [OF this] True Inr p show ?thesis by simp
    qed
  next
    case False
    from run.known [OF Cons.prems False]
    have "run E targets rt c ans (st, push_known st r (note_added targets r d), rs)" .
    from Cons.IH [OF this] False show ?thesis by auto
  qed
qed

lemma dependencies_loop_ended_aux:
  assumes "dependencies_loop E targets rt st d = Some res"
  shows "\<forall>c ans. run E targets rt c ans (st, d, []) \<longrightarrow> ended E targets rt c res"
proof (rule dependencies_loop.raw_induct
    [where P = "\<lambda>E targets rt st d res.
        \<forall>c ans. run E targets rt c ans (st, d, []) \<longrightarrow> ended E targets rt c res",
     OF _ assms], goal_cases)
  case (1 loop E targets rt st d res)
  note IH = 1(1) and eq = 1(2)
  show ?case
  proof (intro allI impI)
    fix c ans
    assume r: "run E targets rt c ans (st, d, [])"
    show "ended E targets rt c res"
    proof (cases "todo d = []")
      case True
      with eq have "res = outcome d"
        by (auto simp: outcome_def missing_error_def)
      with r True show ?thesis
        unfolding ended_def by blast
    next
      case False
      show ?thesis
      proof (cases "last (todo d) \<in> visited d")
        case True
        with False eq
        have "loop E targets rt st (d\<lparr>todo := butlast (todo d)\<rparr>) = Some res" by simp
        moreover from run.skip [OF r False True]
        have "run E targets rt c ans (st, d\<lparr>todo := butlast (todo d)\<rparr>, [])" .
        ultimately show ?thesis using IH by blast
      next
        case nv: False
        let ?d1 = "d\<lparr>todo := butlast (todo d), visited := insert (last (todo d)) (visited d)\<rparr>"
        let ?rs = "service_requires (heap st ! last (todo d))"
        from run.visit [OF r False nv]
        have r1: "run E targets rt c ans (st, ?d1, ?rs)" .
        show ?thesis
        proof (cases "requires_loop E targets rt ?rs st ?d1")
          case (Inl e)
          with False nv eq have "res = Inl e" by simp
          with requires_loop_run [OF r1] Inl show ?thesis by simp
        next
          case (Inr p)
          obtain st' d' where p: "p = (st', d')" by (cases p)
          with Inr False nv eq have "loop E targets rt st' d' = Some res" by simp
          moreover from requires_loop_run [OF r1] Inr p
          obtain ans' where "run E targets rt c ans' (st', d', [])" by auto
          ultimately show ?thesis using IH by blast
        qed
      qed
    qed
  qed
qed

lemma dependencies_ended:
  assumes "lookup_all (services st) targets = Inr (s # ss)"
    and "dependencies E st targets = Some res"
  shows "ended E targets s (initial st (s # ss)) res"
proof -
  from assms have "dependencies_loop E targets s st
      \<lparr>todo = s # ss, visited = {}, added = [], missing = []\<rparr> = Some res"
    by (simp add: dependencies_def)
  from dependencies_loop_ended_aux [OF this] run.start [of E targets s "initial st (s # ss)"]
  show ?thesis
    unfolding initial_def by blast
qed

subsection \<open>When nothing is found, the loops end\<close>

lemma todo_push_known:
  "set (todo (push_known st r d)) \<subseteq> set (todo d) \<union> snd ` set (services st)"
  by (force simp: push_known_def split: option.splits dest: map_of_SomeD)

lemma visited_step [simp]:
  "visited (push_known st r d) = visited d" "visited (note_added targets r d) = visited d"
  "visited (note_missing r ok d) = visited d"
  by (simp_all add: push_known_def note_added_def note_missing_def split: option.splits)

lemma todo_step [simp]:
  "todo (note_added targets r d) = todo d" "todo (note_missing r ok d) = todo d"
  by (simp_all add: note_added_def note_missing_def)

lemma requires_loop_stays:
  assumes "\<forall>r \<in> set rs. map_of (services st) r = None \<longrightarrow>
      resolve E st rt r = Inr (False, st) \<or> (\<exists>e. resolve E st rt r = Inl e)"
  shows "(\<exists>e. requires_loop E targets rt rs st d = Inl e)
    \<or> (\<exists>d'. requires_loop E targets rt rs st d = Inr (st, d') \<and> visited d' = visited d
          \<and> set (todo d') \<subseteq> set (todo d) \<union> snd ` set (services st))"
  using assms
proof (induction rs arbitrary: d)
  case Nil
  then show ?case by simp
next
  case (Cons r rs)
  from Cons.prems have rest: "\<forall>r \<in> set rs. map_of (services st) r = None \<longrightarrow>
      resolve E st rt r = Inr (False, st) \<or> (\<exists>e. resolve E st rt r = Inl e)"
    by simp
  show ?case
  proof (cases "map_of (services st) r = None")
    case True
    with Cons.prems consider "resolve E st rt r = Inr (False, st)" | e where "resolve E st rt r = Inl e"
      by auto
    then show ?thesis
    proof cases
      case 1
      let ?d1 = "push_known st r (note_added targets r (note_missing r False d))"
      from True 1 have step: "requires_loop E targets rt (r # rs) st d = requires_loop E targets rt rs st ?d1"
        by simp
      have "set (todo ?d1) \<subseteq> set (todo d) \<union> snd ` set (services st)" "visited ?d1 = visited d"
        using todo_push_known [of st r "note_added targets r (note_missing r False d)"] by simp_all
      with Cons.IH [OF rest, of ?d1]
      have "(\<exists>e. requires_loop E targets rt rs st ?d1 = Inl e)
        \<or> (\<exists>d'. requires_loop E targets rt rs st ?d1 = Inr (st, d') \<and> visited d' = visited d
              \<and> set (todo d') \<subseteq> set (todo d) \<union> snd ` set (services st))"
        by (simp add: subset_iff) blast
      then show ?thesis by (simp only: step)
    next
      case 2
      with True show ?thesis by simp
    qed
  next
    case False
    let ?d1 = "push_known st r (note_added targets r d)"
    from False have step: "requires_loop E targets rt (r # rs) st d = requires_loop E targets rt rs st ?d1"
      by auto
    have "set (todo ?d1) \<subseteq> set (todo d) \<union> snd ` set (services st)" "visited ?d1 = visited d"
      using todo_push_known [of st r "note_added targets r d"] by simp_all
    with Cons.IH [OF rest, of ?d1]
    have "(\<exists>e. requires_loop E targets rt rs st ?d1 = Inl e)
      \<or> (\<exists>d'. requires_loop E targets rt rs st ?d1 = Inr (st, d') \<and> visited d' = visited d
            \<and> set (todo d') \<subseteq> set (todo d) \<union> snd ` set (services st))"
      by (simp add: subset_iff) blast
    then show ?thesis by (simp only: step)
  qed
qed

lemma wf_loop_order:
  "wf (inv_image pair_less (\<lambda>d. (card (R - visited d), length (todo d))))"
  by (rule wf_inv_image) (rule wf_pair_less)

lemma dependencies_loop_ends_aux:
  assumes H: "nothing_found E st rt"
  shows "set (todo d) \<subseteq> snd ` set (services st) \<longrightarrow>
    (\<exists>res. dependencies_loop E targets rt st d = Some res)"
proof (rule wf_induct_rule [OF wf_loop_order [of "snd ` set (services st)"], where a = d])
  fix d
  let ?R = "snd ` set (services st)"
  assume IH: "\<And>y. (y, d) \<in> inv_image pair_less (\<lambda>d. (card (?R - visited d), length (todo d))) \<Longrightarrow>
    set (todo y) \<subseteq> ?R \<longrightarrow> (\<exists>res. dependencies_loop E targets rt st y = Some res)"
  show "set (todo d) \<subseteq> ?R \<longrightarrow> (\<exists>res. dependencies_loop E targets rt st d = Some res)"
  proof
    assume sub: "set (todo d) \<subseteq> ?R"
    show "\<exists>res. dependencies_loop E targets rt st d = Some res"
    proof (cases "todo d = []")
      case True
      then show ?thesis by (simp add: loop_done)
    next
      case False
      then have last_in: "last (todo d) \<in> ?R"
        using sub last_in_set by blast
      show ?thesis
      proof (cases "last (todo d) \<in> visited d")
        case True
        let ?d1 = "d\<lparr>todo := butlast (todo d)\<rparr>"
        have "(?d1, d) \<in> inv_image pair_less (\<lambda>d. (card (?R - visited d), length (todo d)))"
          using False by simp
        moreover have "set (todo ?d1) \<subseteq> ?R"
          using sub by (auto dest: in_set_butlastD)
        ultimately have "\<exists>res. dependencies_loop E targets rt st ?d1 = Some res"
          using IH by blast
        with False True show ?thesis by (simp add: loop_skip)
      next
        case nv: False
        let ?d1 = "d\<lparr>todo := butlast (todo d), visited := insert (last (todo d)) (visited d)\<rparr>"
        let ?rs = "service_requires (heap st ! last (todo d))"
        from H last_in have "\<forall>r \<in> set ?rs. map_of (services st) r = None \<longrightarrow>
            resolve E st rt r = Inr (False, st) \<or> (\<exists>e. resolve E st rt r = Inl e)"
          unfolding nothing_found_def by blast
        from requires_loop_stays [OF this, of targets ?d1]
        consider (raised) e where "requires_loop E targets rt ?rs st ?d1 = Inl e"
          | (went) d' where "requires_loop E targets rt ?rs st ?d1 = Inr (st, d')"
            "visited d' = visited ?d1" "set (todo d') \<subseteq> set (todo ?d1) \<union> ?R"
          by blast
        then show ?thesis
        proof cases
          case raised
          with False nv show ?thesis by (simp add: loop_raise)
        next
          case went
          have "?R - insert (last (todo d)) (visited d) = (?R - visited d) - {last (todo d)}"
            by blast
          moreover have "card ((?R - visited d) - {last (todo d)}) < card (?R - visited d)"
            using last_in nv by (intro card_Diff1_less) auto
          ultimately
          have "card (?R - insert (last (todo d)) (visited d)) < card (?R - visited d)"
            by (simp only:)
          with went(2)
          have "(d', d) \<in> inv_image pair_less (\<lambda>d. (card (?R - visited d), length (todo d)))"
            by (simp add: pair_lessI1)
          moreover have "set (todo d') \<subseteq> ?R"
            using went(3) sub by (auto dest: in_set_butlastD)
          ultimately have "\<exists>res. dependencies_loop E targets rt st d' = Some res"
            using IH by blast
          with False nv went(1) show ?thesis by (simp add: loop_visit)
        qed
      qed
    qed
  qed
qed

lemma lookup_all_refs:
  "lookup_all reg ts = Inr ss \<Longrightarrow> set ss \<subseteq> snd ` set reg"
proof (induction ts arbitrary: ss)
  case Nil
  then show ?case by simp
next
  case (Cons t ts)
  from Cons.prems obtain s ss' where
    s: "map_of reg t = Some s" and rest: "lookup_all reg ts = Inr ss'" and ss: "ss = s # ss'"
    by (auto split: option.splits sum.splits)
  from s have "(t, s) \<in> set reg" by (rule map_of_SomeD)
  then have "s \<in> snd ` set reg" by force
  with Cons.IH [OF rest] ss show ?case by simp
qed

lemma dependencies_ends:
  assumes "lookup_all (services st) targets = Inr (s # ss)" "nothing_found E st s"
  shows "\<exists>res. dependencies E st targets = Some res"
proof -
  from lookup_all_refs [OF assms(1)]
  have "set (todo \<lparr>todo = s # ss, visited = {}, added = [], missing = []\<rparr>) \<subseteq> snd ` set (services st)"
    by simp
  with dependencies_loop_ends_aux [OF assms(2), of _ targets] assms(1)
  show ?thesis by (simp add: dependencies_def)
qed

text \<open>
  C2 (as amended). Let the targets be registered, \<open>s\<close> the first of them. While the loops
  of \<^verbatim>\<open>dependencies\<close> run, \<open>ans\<close> records every answer of \<^verbatim>\<open>resolve\<close>.

  \<^item> When the stack is empty after a run with the answers \<open>ans\<close>, \<^verbatim>\<open>dependencies\<close> returns:
    the list \<open>added\<close> if no answer was false, and otherwise one aggregate error naming
    exactly the names answered false, each once, in the order of their first such
    answer, and no list. \<open>added\<close> has no duplicates and no target names.
  \<^item> When \<^verbatim>\<open>resolve\<close> raises for an unknown name a run has come to, \<^verbatim>\<open>dependencies\<close> returns
    that error at once: the names that follow are not looked at, and the names collected
    until then are not reported.
  \<^item> Whatever \<^verbatim>\<open>dependencies\<close> returns is one of these two.
  \<^item> When \<^verbatim>\<open>resolve\<close> finds nothing for any unknown name a registered service requires,
    \<^verbatim>\<open>dependencies\<close> does return.
\<close>

theorem dependencies_missing_aggregated:
  assumes "lookup_all (services st) targets = Inr (s # ss)"
  shows "(run E targets s (initial st (s # ss)) ans (st1, d1, []) \<and> todo d1 = [] \<longrightarrow>
        dependencies E st targets =
          Some (if unresolved ans = [] then Inr (added d1)
                else Inl (missing_error (unresolved ans)))
        \<and> distinct (unresolved ans) \<and> set (unresolved ans) = {r. (r, False) \<in> set ans}
        \<and> distinct (added d1) \<and> set (added d1) \<inter> set targets = {})
    \<and> (run E targets s (initial st (s # ss)) ans (st1, d1, r # rs)
          \<and> map_of (services st1) r = None \<and> resolve E st1 s r = Inl e \<longrightarrow>
        dependencies E st targets = Some (Inl e))
    \<and> (dependencies E st targets = Some res \<longrightarrow>
        (\<exists>ans' st' d'. run E targets s (initial st (s # ss)) ans' (st', d', []) \<and> todo d' = []
            \<and> res = (if unresolved ans' = [] then Inr (added d')
                      else Inl (missing_error (unresolved ans'))))
        \<or> (\<exists>ans' st' d' r' rs' e'. run E targets s (initial st (s # ss)) ans' (st', d', r' # rs')
              \<and> map_of (services st') r' = None \<and> resolve E st' s r' = Inl e' \<and> res = Inl e'))
    \<and> (nothing_found E st s \<longrightarrow> (\<exists>res'. dependencies E st targets = Some res'))"
proof (intro conjI impI)
  assume a: "run E targets s (initial st (s # ss)) ans (st1, d1, []) \<and> todo d1 = []"
  then have r: "run E targets s (initial st (s # ss)) ans (st1, d1, [])" and t: "todo d1 = []"
    by simp_all
  from run_collects [OF r] have c: "missing d1 = unresolved ans" "distinct (added d1)"
    "set (added d1) \<inter> set targets = {}"
    by (simp_all add: initial_def)
  from run_rest [OF r] rest_initial [OF assms] rest_drained [OF t]
  have "dependencies E st targets = Some (outcome d1)"
    by simp
  with c(1) show "dependencies E st targets =
      Some (if unresolved ans = [] then Inr (added d1) else Inl (missing_error (unresolved ans)))"
    by (simp add: outcome_def)
  show "distinct (unresolved ans)" by (rule distinct_unresolved)
  show "set (unresolved ans) = {r. (r, False) \<in> set ans}" by (rule set_unresolved)
  from c show "distinct (added d1)" "set (added d1) \<inter> set targets = {}" by simp_all
next
  assume a: "run E targets s (initial st (s # ss)) ans (st1, d1, r # rs)
      \<and> map_of (services st1) r = None \<and> resolve E st1 s r = Inl e"
  then have r: "run E targets s (initial st (s # ss)) ans (st1, d1, r # rs)"
    and u: "map_of (services st1) r = None" and e: "resolve E st1 s r = Inl e"
    by simp_all
  from run_rest [OF r] rest_initial [OF assms] rest_raise [OF u e]
  show "dependencies E st targets = Some (Inl e)"
    by simp
next
  assume "dependencies E st targets = Some res"
  from dependencies_ended [OF assms this]
  consider ans' st' d' where "run E targets s (initial st (s # ss)) ans' (st', d', [])"
      "todo d' = []" "res = outcome d'"
    | ans' st' d' r' rs' e' where "run E targets s (initial st (s # ss)) ans' (st', d', r' # rs')"
      "map_of (services st') r' = None" "resolve E st' s r' = Inl e'" "res = Inl e'"
    unfolding ended_def by blast
  then show "(\<exists>ans' st' d'. run E targets s (initial st (s # ss)) ans' (st', d', []) \<and> todo d' = []
            \<and> res = (if unresolved ans' = [] then Inr (added d')
                      else Inl (missing_error (unresolved ans'))))
        \<or> (\<exists>ans' st' d' r' rs' e'. run E targets s (initial st (s # ss)) ans' (st', d', r' # rs')
              \<and> map_of (services st') r' = None \<and> resolve E st' s r' = Inl e' \<and> res = Inl e')"
  proof cases
    case 1
    from run_collects [OF 1(1)] have "missing d' = unresolved ans'"
      by (simp add: initial_def)
    with 1(3) have "res = (if unresolved ans' = [] then Inr (added d')
        else Inl (missing_error (unresolved ans')))"
      by (simp add: outcome_def)
    with 1(1,2) show ?thesis by blast
  next
    case 2
    then show ?thesis by blast
  qed
next
  assume "nothing_found E st s"
  with assms show "\<exists>res'. dependencies E st targets = Some res'"
    by (rule dependencies_ends)
qed

lemma needy_state_facts:
  "map_of (services needy_state) ''A'' = Some 0"
  "lookup_all (services needy_state) [''A''] = Inr [0]"
  "service_requires (heap needy_state ! 0) = [''B'', ''D'', ''B'']"
  "forgeroot (heap needy_state ! 0) = ''/svc''"
  "service_root (heap needy_state ! 0) = ''/svc''"
  "map_of (services needy_state) ''B'' = None"
  "map_of (services needy_state) ''D'' = None"
  "fs needy_state = example_world"
  by (simp_all add: needy_state_def service_requires_def named_service_def example_service_def
      service_root_def dirname_def)

lemma mixed_state_facts:
  "lookup_all (services mixed_state) [''A''] = Inr [0]"
  "services mixed_state = [(''A'', 0), (''B'', 1)]"
  "service_requires (heap mixed_state ! 0) = [''B'', ''D'', ''F'', ''D'']"
  "service_requires (heap mixed_state ! Suc 0) = [''D'', ''G'']"
  "forgeroot (heap mixed_state ! 0) = ''/svc''"
  "fs mixed_state = example_world"
  by (simp_all add: mixed_state_def service_requires_def named_service_def example_service_def)

lemma resolve_offline:
  assumes "fs st (path_join (path_join (forgeroot (heap st ! svc)) ''.forge'') dep) = None"
  shows "resolve example_env st svc dep = Inr (False, st)"
  using assms
  by (simp add: resolve_def get_search_path_def fetch_def path_exists_def example_env_def)

lemma resolve_no_remote:
  assumes "fs st (path_join (path_join (forgeroot (heap st ! svc)) ''.forge'') dep) = None"
  shows "resolve remote_env st svc dep = Inl (TaskError (''cannot resolve dependency: '' @ dep))"
  using assms
  by (simp add: resolve_def get_search_path_def fetch_def path_exists_def remote_env_def example_env_def)

lemma example_world_forge:
  "example_world (path_join (path_join ''/svc'' ''.forge'') ''B'') = None"
  "example_world (path_join (path_join ''/svc'' ''.forge'') ''D'') = None"
  "example_world (path_join (path_join ''/svc'' ''.forge'') ''F'') = None"
  "example_world (path_join (path_join ''/svc'' ''.forge'') ''G'') = None"
  by (simp_all add: example_world_def path_join_def)

lemma mixed_resolve:
  "resolve example_env mixed_state 0 ''D'' = Inr (False, mixed_state)"
  "resolve example_env mixed_state 0 ''F'' = Inr (False, mixed_state)"
  "resolve example_env mixed_state 0 ''G'' = Inr (False, mixed_state)"
  by (rule resolve_offline, simp add: mixed_state_facts example_world_forge)+

lemma mixed_nothing_found: "nothing_found example_env mixed_state 0"
  by (simp add: nothing_found_def mixed_state_facts mixed_resolve)

lemma mixed_run:
  "run example_env [''A''] 0 (initial mixed_state [0])
     [(''D'', False), (''F'', False), (''D'', False), (''D'', False), (''G'', False)]
     (mixed_state,
      \<lparr>todo = [], visited = {1, 0}, added = [''B'', ''D'', ''F'', ''G''],
       missing = [''D'', ''F'', ''G'']\<rparr>, [])"
proof -
  let ?run = "run example_env [''A''] 0 (initial mixed_state [0])"
  have "?run [] (mixed_state, \<lparr>todo = [0], visited = {}, added = [], missing = []\<rparr>, [])"
    using run.start [of example_env "[''A'']" 0 "initial mixed_state [0]"]
    by (simp add: initial_def)
  from run.visit [OF this]
  have "?run [] (mixed_state, \<lparr>todo = [], visited = {0}, added = [], missing = []\<rparr>,
      [''B'', ''D'', ''F'', ''D''])"
    by (simp add: mixed_state_facts)
  from run.known [OF this]
  have "?run [] (mixed_state, \<lparr>todo = [1], visited = {0}, added = [''B''], missing = []\<rparr>,
      [''D'', ''F'', ''D''])"
    by (simp add: mixed_state_facts push_known_def note_added_def)
  from run.resolved [OF this _ mixed_resolve(1)]
  have "?run [(''D'', False)]
      (mixed_state, \<lparr>todo = [1], visited = {0}, added = [''B'', ''D''], missing = [''D'']\<rparr>,
       [''F'', ''D''])"
    by (simp add: mixed_state_facts push_known_def note_added_def note_missing_def)
  from run.resolved [OF this _ mixed_resolve(2)]
  have "?run [(''D'', False), (''F'', False)]
      (mixed_state,
       \<lparr>todo = [1], visited = {0}, added = [''B'', ''D'', ''F''], missing = [''D'', ''F'']\<rparr>,
       [''D''])"
    by (simp add: mixed_state_facts push_known_def note_added_def note_missing_def)
  from run.resolved [OF this _ mixed_resolve(1)]
  have "?run [(''D'', False), (''F'', False), (''D'', False)]
      (mixed_state,
       \<lparr>todo = [1], visited = {0}, added = [''B'', ''D'', ''F''], missing = [''D'', ''F'']\<rparr>,
       [])"
    by (simp add: mixed_state_facts push_known_def note_added_def note_missing_def)
  from run.visit [OF this]
  have "?run [(''D'', False), (''F'', False), (''D'', False)]
      (mixed_state,
       \<lparr>todo = [], visited = {1, 0}, added = [''B'', ''D'', ''F''], missing = [''D'', ''F'']\<rparr>,
       [''D'', ''G''])"
    by (simp add: mixed_state_facts)
  from run.resolved [OF this _ mixed_resolve(1)]
  have "?run [(''D'', False), (''F'', False), (''D'', False), (''D'', False)]
      (mixed_state,
       \<lparr>todo = [], visited = {1, 0}, added = [''B'', ''D'', ''F''], missing = [''D'', ''F'']\<rparr>,
       [''G''])"
    by (simp add: mixed_state_facts push_known_def note_added_def note_missing_def)
  from run.resolved [OF this _ mixed_resolve(3)]
  show ?thesis
    by (simp add: mixed_state_facts push_known_def note_added_def note_missing_def)
qed

lemma needy_run:
  "run remote_env [''A''] 0 (initial needy_state [0]) []
     (needy_state, \<lparr>todo = [], visited = {0}, added = [], missing = []\<rparr>, [''B'', ''D'', ''B''])"
proof -
  have "run remote_env [''A''] 0 (initial needy_state [0]) []
      (needy_state, \<lparr>todo = [0], visited = {}, added = [], missing = []\<rparr>, [])"
    using run.start [of remote_env "[''A'']" 0 "initial needy_state [0]"]
    by (simp add: initial_def)
  from run.visit [OF this] show ?thesis
    by (simp add: needy_state_facts)
qed

lemma needy_resolve:
  "resolve remote_env needy_state 0 ''B'' = Inl (TaskError ''cannot resolve dependency: B'')"
  "resolve remote_env needy_state 0 ''D'' = Inl (TaskError ''cannot resolve dependency: D'')"
  using resolve_no_remote [of needy_state 0 "''B''"] resolve_no_remote [of needy_state 0 "''D''"]
  by (simp_all add: needy_state_facts example_world_forge)

lemma unresolved_mixed:
  "unresolved [(''D'', False), (''F'', False), (''D'', False), (''D'', False), (''G'', False)]
     = [''D'', ''F'', ''G'']"
  by (simp add: unresolved_def)

theorem dependencies_missing_aggregated_witness:
  "lookup_all (services mixed_state) [''A''] = Inr [0]
   \<and> service_requires (heap mixed_state ! 0) = [''B'', ''D'', ''F'', ''D'']
   \<and> service_requires (heap mixed_state ! 1) = [''D'', ''G'']
   \<and> run example_env [''A''] 0 (initial mixed_state [0])
        [(''D'', False), (''F'', False), (''D'', False), (''D'', False), (''G'', False)]
        (mixed_state,
         \<lparr>todo = [], visited = {1, 0}, added = [''B'', ''D'', ''F'', ''G''],
          missing = [''D'', ''F'', ''G'']\<rparr>, [])
   \<and> nothing_found example_env mixed_state 0
   \<and> dependencies example_env mixed_state [''A'']
       = Some (Inl (TaskError ''required service(s) missing: D, F, G''))
   \<and> lookup_all (services needy_state) [''A''] = Inr [0]
   \<and> run remote_env [''A''] 0 (initial needy_state [0]) []
        (needy_state, \<lparr>todo = [], visited = {0}, added = [], missing = []\<rparr>, [''B'', ''D'', ''B''])
   \<and> map_of (services needy_state) ''B'' = None
   \<and> resolve remote_env needy_state 0 ''B'' = Inl (TaskError ''cannot resolve dependency: B'')
   \<and> dependencies remote_env needy_state [''A'']
       = Some (Inl (TaskError ''cannot resolve dependency: B''))"
proof -
  let ?ans = "[(''D'', False), (''F'', False), (''D'', False), (''D'', False), (''G'', False)]"
  let ?d = "\<lparr>todo = [], visited = {1, 0}, added = [''B'', ''D'', ''F'', ''G''],
      missing = [''D'', ''F'', ''G'']\<rparr>"
  let ?d' = "\<lparr>todo = [], visited = {0}, added = [], missing = []\<rparr>"
  from dependencies_missing_aggregated [OF mixed_state_facts(1), of example_env ?ans mixed_state ?d]
    mixed_run
  have "dependencies example_env mixed_state [''A'']
      = Some (if unresolved ?ans = [] then Inr (added ?d) else Inl (missing_error (unresolved ?ans)))"
    by simp
  then have a: "dependencies example_env mixed_state [''A'']
      = Some (Inl (TaskError ''required service(s) missing: D, F, G''))"
    by (simp add: unresolved_mixed missing_error_def)
  from dependencies_missing_aggregated [OF needy_state_facts(2), of remote_env "[]" needy_state ?d'
      "''B''" "[''D'', ''B'']" "TaskError ''cannot resolve dependency: B''"]
    needy_run needy_resolve(1) needy_state_facts(6)
  have b: "dependencies remote_env needy_state [''A'']
      = Some (Inl (TaskError ''cannot resolve dependency: B''))"
    by simp
  from a b mixed_run needy_run mixed_nothing_found needy_resolve(1) show ?thesis
    by (simp add: mixed_state_facts needy_state_facts)
qed

text \<open>
  The claim as stated fails: when the service has a remote and the sibling repositories
  of B and D do not exist, \<^verbatim>\<open>resolve\<close> raises for B and the error of \<^verbatim>\<open>dependencies\<close>
  names B alone.
\<close>

theorem dependencies_first_missing_counterexample:
  "service_requires (heap needy_state ! 0) = [''B'', ''D'', ''B'']
   \<and> resolve remote_env needy_state 0 ''B'' = Inl (TaskError ''cannot resolve dependency: B'')
   \<and> resolve remote_env needy_state 0 ''D'' = Inl (TaskError ''cannot resolve dependency: D'')
   \<and> dependencies remote_env needy_state [''A''] = Some (Inl (TaskError ''cannot resolve dependency: B''))"
proof -
  have "dependencies remote_env needy_state [''A'']
      = dependencies_loop remote_env [''A''] 0 needy_state
          \<lparr>todo = [0], visited = {}, added = [], missing = []\<rparr>"
    by (simp add: dependencies_def needy_state_facts)
  also have "\<dots> = Some (Inl (TaskError ''cannot resolve dependency: B''))"
    by (rule loop_raise) (simp_all add: needy_state_facts needy_resolve)
  finally show ?thesis
    by (simp add: needy_state_facts needy_resolve)
qed

end
